theory Spec2Isabelle
  imports Complex_Main
begin

text \<open>
  The repository holds three versions of the page script. One draws a Voronoi-shaded sphere
  (\<open>index.js\<close>, the sphere variant: \<open>MAX_SEEDS = 256\<close>, \<open>DURATION_MS = 1000\<close>); the two others draw
  a ray-marched convex polyhedron (the polyhedron variant: \<open>MAX_SEEDS = 128\<close>,
  \<open>DURATION_MS = 900\<close>, \<open>POLY_OFFSET = 0.9\<close>) and agree in everything modelled here. Seed
  generation and \<open>setSeeds\<close> are the same code in all three. Unless a name says otherwise, the
  definitions below follow the polyhedron variant.
\<close>

section \<open>Numbers\<close>

text \<open>
  JavaScript numbers and GLSL floats are modelled as mathematical reals: every arithmetic
  operation is exact. Integer-valued numbers that pass through \<open>x|0\<close> are modelled as
  \<open>int\<close>, with the 32-bit wrap-around of the bitwise operator written out.
\<close>

definition toInt32 :: "int \<Rightarrow> int" where
  \<comment> \<open>\<open>n|0\<close> on an integer-valued number: reduce modulo 2^32 into [-2^31, 2^31).\<close>
  "toInt32 n = (n + 2147483648) mod 4294967296 - 2147483648"

definition js_rem :: "int \<Rightarrow> int \<Rightarrow> int" where
  \<comment> \<open>\<open>a % b\<close> for a non-zero divisor: the remainder takes the sign of the dividend.\<close>
  "js_rem a b = sgn a * (\<bar>a\<bar> mod \<bar>b\<bar>)"

definition EPSILON :: real where
  \<comment> \<open>\<open>Number.EPSILON\<close>\<close>
  "EPSILON = 1 / 4503599627370496"

function digits :: "nat \<Rightarrow> string" where
  "digits n =
    (if n < 10 then [''0123456789'' ! n] else digits (n div 10) @ [''0123456789'' ! (n mod 10)])"
  by pat_completeness auto
termination
  by (relation "measure id") auto

definition numberToString :: "int \<Rightarrow> string" where
  \<comment> \<open>the decimal text a template literal gives an integer-valued number\<close>
  "numberToString i = (if i < 0 then CHR ''-'' # digits (nat (- i)) else digits (nat i))"

section \<open>Vectors and quaternions of the graphics library\<close>

text \<open>
  The source imports three.js 0.165. The methods it calls on \<open>Vector3\<close> and \<open>Quaternion\<close>
  are written here as that release computes them, over the reals.
\<close>

datatype vec3 = Vector3 (vx: real) (vy: real) (vz: real)

datatype quat = Quaternion (qx: real) (qy: real) (qz: real) (qw: real)

definition dot :: "vec3 \<Rightarrow> vec3 \<Rightarrow> real" where
  "dot a b = vx a * vx b + vy a * vy b + vz a * vz b"

definition vlength :: "vec3 \<Rightarrow> real" where
  "vlength v = sqrt (vx v * vx v + vy v * vy v + vz v * vz v)"

definition multiplyScalar :: "vec3 \<Rightarrow> real \<Rightarrow> vec3" where
  "multiplyScalar v s = Vector3 (vx v * s) (vy v * s) (vz v * s)"

definition add_v :: "vec3 \<Rightarrow> vec3 \<Rightarrow> vec3" where
  "add_v a b = Vector3 (vx a + vx b) (vy a + vy b) (vz a + vz b)"

definition normalizeV :: "vec3 \<Rightarrow> vec3" where
  \<comment> \<open>\<open>divideScalar(this.length() || 1)\<close>, and \<open>divideScalar(s)\<close> is \<open>multiplyScalar(1 / s)\<close>\<close>
  "normalizeV v = (let l = vlength v in multiplyScalar v (1 / (if l = 0 then 1 else l)))"

definition applyQuaternion :: "vec3 \<Rightarrow> quat \<Rightarrow> vec3" where
  "applyQuaternion v q =
    (let tx = 2 * (qy q * vz v - qz q * vy v);
         ty = 2 * (qz q * vx v - qx q * vz v);
         tz = 2 * (qx q * vy v - qy q * vx v)
     in Vector3 (vx v + qw q * tx + qy q * tz - qz q * ty)
                (vy v + qw q * ty + qz q * tx - qx q * tz)
                (vz v + qw q * tz + qx q * ty - qy q * tx))"

definition qlength :: "quat \<Rightarrow> real" where
  "qlength q = sqrt (qx q * qx q + qy q * qy q + qz q * qz q + qw q * qw q)"

definition qnormalize :: "quat \<Rightarrow> quat" where
  "qnormalize q =
    (let l = qlength q in
     if l = 0 then Quaternion 0 0 0 1
     else Quaternion (qx q * (1 / l)) (qy q * (1 / l)) (qz q * (1 / l)) (qw q * (1 / l)))"

definition setFromUnitVectors :: "vec3 \<Rightarrow> vec3 \<Rightarrow> quat" where
  "setFromUnitVectors vFrom vTo =
    (let r = dot vFrom vTo + 1 in
     if r < EPSILON then
       (if \<bar>vx vFrom\<bar> > \<bar>vz vFrom\<bar>
        then qnormalize (Quaternion (- vy vFrom) (vx vFrom) 0 0)
        else qnormalize (Quaternion 0 (- vz vFrom) (vy vFrom) 0))
     else qnormalize (Quaternion (vy vFrom * vz vTo - vz vFrom * vy vTo)
                                 (vz vFrom * vx vTo - vx vFrom * vz vTo)
                                 (vx vFrom * vy vTo - vy vFrom * vx vTo) r))"

definition multiply :: "quat \<Rightarrow> quat \<Rightarrow> quat" where
  \<comment> \<open>\<open>a.multiply(b)\<close> is \<open>multiplyQuaternions(a, b)\<close>\<close>
  "multiply a b =
    Quaternion (qx a * qw b + qw a * qx b + qy a * qz b - qz a * qy b)
               (qy a * qw b + qw a * qy b + qz a * qx b - qx a * qz b)
               (qz a * qw b + qw a * qz b + qx a * qy b - qy a * qx b)
               (qw a * qw b - qx a * qx b - qy a * qy b - qz a * qz b)"

definition atan2 :: "real \<Rightarrow> real \<Rightarrow> real" where
  "atan2 b a =
    (if a > 0 then arctan (b / a)
     else if a < 0 then (if b \<ge> 0 then arctan (b / a) + pi else arctan (b / a) - pi)
     else if b > 0 then pi / 2 else if b < 0 then - pi / 2 else 0)"

definition slerp :: "quat \<Rightarrow> quat \<Rightarrow> real \<Rightarrow> quat" where
  \<comment> \<open>\<open>qa.slerp(qb, t)\<close>\<close>
  "slerp qa qb t =
    (if t = 0 then qa
     else if t = 1 then qb
     else
       let c0 = qw qa * qw qb + qx qa * qx qb + qy qa * qy qb + qz qa * qz qb;
           b = (if c0 < 0 then Quaternion (- qx qb) (- qy qb) (- qz qb) (- qw qb) else qb);
           cosHalfTheta = (if c0 < 0 then - c0 else c0)
       in if cosHalfTheta \<ge> 1 then qa
          else
            let sqrSinHalfTheta = 1 - cosHalfTheta * cosHalfTheta in
            if sqrSinHalfTheta \<le> EPSILON then
              (let s = 1 - t in
               qnormalize (Quaternion (s * qx qa + t * qx b) (s * qy qa + t * qy b)
                                      (s * qz qa + t * qz b) (s * qw qa + t * qw b)))
            else
              let sinHalfTheta = sqrt sqrSinHalfTheta;
                  halfTheta = atan2 sinHalfTheta cosHalfTheta;
                  ratioA = sin ((1 - t) * halfTheta) / sinHalfTheta;
                  ratioB = sin (t * halfTheta) / sinHalfTheta
              in Quaternion (qx qa * ratioA + qx b * ratioB) (qy qa * ratioA + qy b * ratioB)
                            (qz qa * ratioA + qz b * ratioB) (qw qa * ratioA + qw b * ratioB))"

datatype mat3 = Matrix3 (row0: vec3) (row1: vec3) (row2: vec3)

definition mulMV :: "mat3 \<Rightarrow> vec3 \<Rightarrow> vec3" where
  \<comment> \<open>GLSL \<open>m * v\<close>\<close>
  "mulMV m v = Vector3 (dot (row0 m) v) (dot (row1 m) v) (dot (row2 m) v)"

definition rotationMatrix :: "quat \<Rightarrow> mat3" where
  \<comment> \<open>\<open>new Matrix3().setFromMatrix4(new Matrix4().makeRotationFromQuaternion(q))\<close>\<close>
  "rotationMatrix q =
    (let x2 = qx q + qx q; y2 = qy q + qy q; z2 = qz q + qz q;
         xx = qx q * x2; xy = qx q * y2; xz = qx q * z2;
         yy = qy q * y2; yz = qy q * z2; zz = qz q * z2;
         wx = qw q * x2; wy = qw q * y2; wz = qw q * z2
     in Matrix3 (Vector3 (1 - (yy + zz)) (xy - wz) (xz + wy))
                (Vector3 (xy + wz) (1 - (xx + zz)) (yz - wx))
                (Vector3 (xz - wy) (yz + wx) (1 - (xx + yy))))"

section \<open>Configuration\<close>

definition MAX_SEEDS :: nat where
  \<comment> \<open>the polyhedron variant; the sphere variant has 256\<close>
  "MAX_SEEDS = 128"

definition MAX_SEEDS_sphere :: nat where
  "MAX_SEEDS_sphere = 256"

definition DURATION_MS :: real where
  "DURATION_MS = 900"

definition GOLDEN_ANGLE :: real where
  "GOLDEN_ANGLE = pi * (3 - sqrt 5)"

definition POLY_OFFSET :: real where
  "POLY_OFFSET = 9 / 10"

definition zWorld :: vec3 where
  "zWorld = Vector3 0 0 1"

section \<open>Seeds\<close>

definition seedAt :: "nat \<Rightarrow> nat \<Rightarrow> vec3" where
  \<comment> \<open>the body of the loop of \<open>fibonacciSeeds\<close>\<close>
  "seedAt n i =
    (let t = (real i + 1 / 2) / real n;
         z = 1 - 2 * t;
         r = sqrt (max 0 (1 - z * z));
         phi = real i * GOLDEN_ANGLE
     in normalizeV (Vector3 (cos phi * r) z (sin phi * r)))"

function fibLoop :: "nat \<Rightarrow> nat \<Rightarrow> vec3 list \<Rightarrow> vec3 list" where
  "fibLoop n i out = (if i < n then fibLoop n (Suc i) (out @ [seedAt n i]) else out)"
  by pat_completeness auto
termination
  by (relation "measure (\<lambda>(n, i, out). n - i)") auto

definition fibonacciSeeds :: "nat \<Rightarrow> vec3 list" where
  "fibonacciSeeds n = fibLoop n 0 []"

section \<open>State\<close>

record anim_t =
  startQ :: quat
  endQ :: quat
  startTime :: real
  dur :: real

record state =
  seeds :: "vec3 list"
  count :: int
  offset :: real
  rot :: mat3
  seedDirs :: "vec3 list option"
  rotQ :: quat
  anim :: "anim_t option"
  resultText :: string

datatype js_error = TypeError

function resetLoop :: "nat \<Rightarrow> nat \<Rightarrow> vec3 list \<Rightarrow> js_error + vec3 list" where
  \<comment> \<open>\<open>for (let i=0; i<MAX_SEEDS; i++) u.seeds.value[i].set(1,0,0)\<close>\<close>
  "resetLoop m i ss =
    (if i < m then
       (if i < length ss then resetLoop m (Suc i) (ss[i := Vector3 1 0 0]) else Inl TypeError)
     else Inr ss)"
  by pat_completeness auto
termination
  by (relation "measure (\<lambda>(m, i, ss). m - i)") auto

function copyLoop :: "nat \<Rightarrow> nat \<Rightarrow> vec3 list \<Rightarrow> vec3 list \<Rightarrow> js_error + vec3 list" where
  \<comment> \<open>\<open>for (let i=0; i<n; i++) u.seeds.value[i].copy(pts[i])\<close>\<close>
  "copyLoop n i pts ss =
    (if i < n then
       (if i < length ss \<and> i < length pts then copyLoop n (Suc i) pts (ss[i := pts ! i])
        else Inl TypeError)
     else Inr ss)"
  by pat_completeness auto
termination
  by (relation "measure (\<lambda>(n, i, pts, ss). n - i)") auto

definition setSeeds :: "nat \<Rightarrow> int \<Rightarrow> state \<Rightarrow> js_error + state" where
  \<comment> \<open>the first argument is the variant's \<open>MAX_SEEDS\<close>\<close>
  "setSeeds m n st =
    (let n' = max 3 (min (int m) (toInt32 n));
         pts = fibonacciSeeds (nat n')
     in case resetLoop m 0 (seeds st) of
          Inl e \<Rightarrow> Inl e
        | Inr s1 \<Rightarrow>
            (case copyLoop (nat n') 0 pts s1 of
               Inl e \<Rightarrow> Inl e
             | Inr s2 \<Rightarrow> Inr (st\<lparr>seeds := s2, count := n', seedDirs := Some pts\<rparr>)))"

definition initState :: "nat \<Rightarrow> string \<Rightarrow> state" where
  \<comment> \<open>the state when the module has loaded, before the boot call of \<open>setSeeds\<close>: the
     capacity of the uniform array and the text the page shows in the readout\<close>
  "initState m txt =
    \<lparr>seeds = replicate m (Vector3 1 0 0), count = 0, offset = POLY_OFFSET,
     rot = Matrix3 (Vector3 1 0 0) (Vector3 0 1 0) (Vector3 0 0 1),
     seedDirs = None, rotQ = Quaternion 0 0 0 1, anim = None, resultText = txt\<rparr>"

section \<open>Roll animation\<close>

definition wrapIndex :: "int \<Rightarrow> int \<Rightarrow> int" where
  \<comment> \<open>\<open>((idx|0) % len + len) % len\<close>\<close>
  "wrapIndex idx len = js_rem (js_rem (toInt32 idx) len + len) len"

definition resultString :: "int \<Rightarrow> int \<Rightarrow> string" where
  \<comment> \<open>the template literal of the readout, for the wrapped index and \<open>dirs.length\<close>\<close>
  "resultString idx len = ''Result: '' @ numberToString (idx + 1) @ '' / d'' @ numberToString len"

definition rollTo :: "int \<Rightarrow> real \<Rightarrow> state \<Rightarrow> state" where
  \<comment> \<open>the second argument is what \<open>performance.now()\<close> returns during the call\<close>
  "rollTo idx now st =
    (case seedDirs st of
       None \<Rightarrow> st
     | Some dirs \<Rightarrow>
         if length dirs = 0 then st
         else
           let len = int (length dirs);
               idx' = wrapIndex idx len;
               nWorld = normalizeV (applyQuaternion (dirs ! nat idx') (rotQ st));
               delta = setFromUnitVectors nWorld zWorld;
               sQ = rotQ st;
               eQ = multiply delta sQ
           in st\<lparr>anim := Some \<lparr>startQ = sQ, endQ = eQ, startTime = now, dur = DURATION_MS\<rparr>,
                  resultText := resultString idx' len\<rparr>)"

definition render :: "real \<Rightarrow> state \<Rightarrow> state" where
  \<comment> \<open>one frame of the render loop; the argument is what \<open>performance.now()\<close> returns\<close>
  "render now st =
    (case anim st of
       None \<Rightarrow> st
     | Some a \<Rightarrow>
         let t = min 1 ((now - startTime a) / dur a);
             tt = 1 - (1 - t) ^ 3;
             q = slerp (startQ a) (endQ a) tt;
             st1 = st\<lparr>rotQ := q, rot := rotationMatrix q\<rparr>
         in if t \<ge> 1 then st1\<lparr>anim := None\<rparr> else st1)"

section \<open>The ray/polyhedron intersector of the fragment shader\<close>

text \<open>
  The GLSL function reads the uniforms \<open>seeds\<close>, \<open>count\<close>, \<open>offset\<close> and \<open>rot\<close>, here fields of
  the state; its first argument is the shader's \<open>MAX_SEEDS\<close>. \<open>polyLoop\<close> is the \<open>for\<close> loop
  from index \<open>i\<close> on: \<open>Inl\<close> is a \<open>return\<close> from inside the loop, \<open>Inr\<close> the loop variables when
  the loop ends or breaks.
\<close>

definition normalizeGL :: "vec3 \<Rightarrow> vec3" where
  \<comment> \<open>GLSL \<open>normalize(v)\<close>, that is \<open>v / length(v)\<close>; GLSL leaves it undefined for the zero
     vector, which the shader never passes: an entering face has \<open>dot(n, rd) < 0\<close>\<close>
  "normalizeGL v = Vector3 (vx v / vlength v) (vy v / vlength v) (vz v / vlength v)"

datatype hit = Hit (ok: bool) (tHit: real) (faceIdx: int) (normal: vec3) (pos: vec3)

definition noHit :: hit where
  "noHit = Hit False 0 (- 1) (Vector3 0 0 0) (Vector3 0 0 0)"

function polyLoop ::
  "nat \<Rightarrow> state \<Rightarrow> vec3 \<Rightarrow> vec3 \<Rightarrow> nat \<Rightarrow> real \<Rightarrow> real \<Rightarrow> int \<Rightarrow> hit + real \<times> real \<times> int" where
  "polyLoop m u ro rd i tNear tFar enterIdx =
    (if i < m then
       (if int i \<ge> count u then Inr (tNear, tFar, enterIdx)
        else
          let n = mulMV (rot u) (seeds u ! i);
              denom = dot n rd;
              num = offset u - dot n ro
          in if \<bar>denom\<bar> < 1 / 1000000 then
               (if num < 0 then Inl noHit else polyLoop m u ro rd (Suc i) tNear tFar enterIdx)
             else
               let t = num / denom;
                   (tNear', tFar', enterIdx') =
                     (if denom < 0 then
                        (if t > tNear then (t, tFar, int i) else (tNear, tFar, enterIdx))
                      else
                        (if t < tFar then (tNear, t, enterIdx) else (tNear, tFar, enterIdx)))
               in if tNear' > tFar' then Inl noHit
                  else polyLoop m u ro rd (Suc i) tNear' tFar' enterIdx')
     else Inr (tNear, tFar, enterIdx))"
  by pat_completeness auto
termination
  by (relation "measure (\<lambda>(m, u, ro, rd, i, tNear, tFar, enterIdx). m - i)") auto

definition intersectPoly :: "nat \<Rightarrow> state \<Rightarrow> vec3 \<Rightarrow> vec3 \<Rightarrow> hit" where
  "intersectPoly m u ro rd =
    (case polyLoop m u ro rd 0 0 1000000000 (- 1) of
       Inl h \<Rightarrow> h
     | Inr (tNear, tFar, enterIdx) \<Rightarrow>
         if enterIdx < 0 \<or> tFar < 0 then noHit
         else
           let t = max tNear 0;
               p = add_v ro (multiplyScalar rd t);
               nHit = normalizeGL (mulMV (rot u) (seeds u ! nat enterIdx))
           in Hit True t enterIdx nHit p)"

section \<open>The intersection algorithm in the words of the specification\<close>

text \<open>
  Slab clipping as the specification words it, for faces \<open>0..cnt-1\<close> with normals \<open>nrm i\<close>, a
  parallel threshold \<open>eps\<close> and an initial far bound \<open>tFar0\<close> that may be infinite. The result is
  \<open>None\<close> for "no hit" and otherwise the hit distance, the hit point, the entering face and
  its normal.
\<close>

datatype ext = Finite real | Infinity

fun less_ext :: "real \<Rightarrow> ext \<Rightarrow> bool" where
  "less_ext t Infinity = True"
| "less_ext t (Finite f) = (t < f)"

fun ext_less :: "ext \<Rightarrow> real \<Rightarrow> bool" where
  "ext_less Infinity t = False"
| "ext_less (Finite f) t = (f < t)"

fun specSlabClip ::
  "real \<Rightarrow> real \<Rightarrow> vec3 \<Rightarrow> vec3 \<Rightarrow> (nat \<Rightarrow> vec3) \<Rightarrow> nat list \<Rightarrow> real \<Rightarrow> ext \<Rightarrow> nat option
   \<Rightarrow> (real \<times> ext \<times> nat option) option" where
  "specSlabClip eps d ro rd nrm [] tNear tFar enterFace = Some (tNear, tFar, enterFace)"
| "specSlabClip eps d ro rd nrm (i # faces) tNear tFar enterFace =
    (let denom = dot (nrm i) rd;
         num = d - dot (nrm i) ro
     in if \<bar>denom\<bar> < eps then
          (if num < 0 then None else specSlabClip eps d ro rd nrm faces tNear tFar enterFace)
        else
          let t = num / denom;
              upd = (denom < 0 \<and> t > tNear);
              tNear' = (if upd then t else tNear);
              enterFace' = (if upd then Some i else enterFace);
              tFar' = (if denom > 0 \<and> less_ext t tFar then Finite t else tFar)
          in if ext_less tFar' tNear' then None
             else specSlabClip eps d ro rd nrm faces tNear' tFar' enterFace')"

definition specIntersect ::
  "real \<Rightarrow> ext \<Rightarrow> real \<Rightarrow> vec3 \<Rightarrow> vec3 \<Rightarrow> (nat \<Rightarrow> vec3) \<Rightarrow> nat
   \<Rightarrow> (real \<times> vec3 \<times> nat \<times> vec3) option" where
  "specIntersect eps tFar0 d ro rd nrm cnt =
    (case specSlabClip eps d ro rd nrm [0..<cnt] 0 tFar0 None of
       None \<Rightarrow> None
     | Some (tNear, tFar, enterFace) \<Rightarrow>
         (case enterFace of
            None \<Rightarrow> None
          | Some e \<Rightarrow>
              if ext_less tFar 0 then None
              else Some (max tNear 0, add_v ro (multiplyScalar rd (max tNear 0)), e, nrm e)))"

text \<open>
  How the loop variables of the shader stand for those of the specification: the index \<open>-1\<close>
  for an unset entering face, and a real far bound for a finite one (the shader's bound is
  never infinite; \<open>toLoop\<close> is only ever applied to finite bounds, lemma
  \<open>specSlabClip_finite\<close>).
\<close>

fun idxOf :: "nat option \<Rightarrow> int" where
  "idxOf None = - 1"
| "idxOf (Some j) = int j"

fun toLoop :: "(real \<times> ext \<times> nat option) option \<Rightarrow> hit + real \<times> real \<times> int" where
  "toLoop None = Inl noHit"
| "toLoop (Some (tn, Finite tf, en)) = Inr (tn, tf, idxOf en)"
| "toLoop (Some (tn, Infinity, en)) = Inr (tn, 0, idxOf en)"

section \<open>Boot\<close>

text \<open>
  The boot sequence \<open>setSeeds(n); applyRotationUniform()\<close> from the freshly loaded module, and
  the state it reaches for three faces (lemma \<open>boot_3\<close>).
\<close>

definition boot :: "int \<Rightarrow> string \<Rightarrow> js_error + state" where
  "boot n txt =
    (case setSeeds MAX_SEEDS n (initState MAX_SEEDS txt) of
       Inl e \<Rightarrow> Inl e
     | Inr st \<Rightarrow> Inr (st\<lparr>rot := rotationMatrix (rotQ st)\<rparr>))"

definition booted3 :: "string \<Rightarrow> state" where
  "booted3 txt = (initState MAX_SEEDS txt)
     \<lparr>seeds := fibonacciSeeds 3 @ replicate 125 (Vector3 1 0 0), count := 3,
      seedDirs := Some (fibonacciSeeds 3)\<rparr>"

section \<open>The sphere variant: frames and timers\<close>

text \<open>
  In the sphere variant \<open>rollTo\<close> runs the first \<open>tick\<close> itself, leaves the following ones to
  \<open>requestAnimationFrame\<close> and publishes the readout from a \<open>setTimeout\<close> callback. The state
  holds what the browser has pending: the frame callback (the closure \<open>tick\<close> with its captured
  \<open>start\<close>, \<open>end\<close> and \<open>startTime\<close>) and the timeouts, each with the time from which it may fire
  and the text it will write. The three time arguments of \<open>rollToSphere\<close> are the clock when
  \<open>startTime\<close> is read, when the first \<open>tick\<close> reads it, and when \<open>setTimeout\<close> is called.
\<close>

definition DURATION_MS_sphere :: real where
  "DURATION_MS_sphere = 1000"

record tick_t =
  tickStart :: quat
  tickEnd :: quat
  tickStartTime :: real

record sphere =
  userSeedDirs :: "vec3 list option"
  quaternion :: quat
  rafTick :: "tick_t option"
  timeouts :: "(real \<times> string) list"
  readout :: string

definition tick :: "real \<Rightarrow> tick_t \<Rightarrow> sphere \<Rightarrow> sphere" where
  "tick now c st =
    (let t0 = min 1 ((now - tickStartTime c) / DURATION_MS_sphere);
         t = 1 - (1 - t0) ^ 3;
         st1 = st\<lparr>quaternion := slerp (tickStart c) (tickEnd c) t\<rparr>
     in if t < 1 then st1\<lparr>rafTick := Some c\<rparr> else st1)"

definition rollToSphere :: "int \<Rightarrow> real \<Rightarrow> real \<Rightarrow> real \<Rightarrow> sphere \<Rightarrow> sphere" where
  "rollToSphere idx tStart tTick tSched st =
    (case userSeedDirs st of
       None \<Rightarrow> st
     | Some dirs \<Rightarrow>
         if length dirs = 0 then st
         else
           let len = int (length dirs);
               idx' = wrapIndex idx len;
               worldDir = normalizeV (applyQuaternion (dirs ! nat idx') (quaternion st));
               delta = setFromUnitVectors worldDir (Vector3 0 0 1);
               c = \<lparr>tickStart = quaternion st, tickEnd = multiply delta (quaternion st),
                    tickStartTime = tStart\<rparr>;
               st1 = tick tTick c (st\<lparr>rafTick := None\<rparr>)
           in st1\<lparr>timeouts := timeouts st1
                    @ [(tSched + DURATION_MS_sphere * (9 / 10), resultString idx' len)]\<rparr>)"

text \<open>
  The browser runs the pending frame callback, or the timeouts that are due, in the order
  they were set.
\<close>

definition animationFrame :: "real \<Rightarrow> sphere \<Rightarrow> sphere" where
  "animationFrame now st =
    (case rafTick st of None \<Rightarrow> st | Some c \<Rightarrow> tick now c (st\<lparr>rafTick := None\<rparr>))"

definition fireTimeouts :: "real \<Rightarrow> sphere \<Rightarrow> sphere" where
  "fireTimeouts now st =
    (let due = filter (\<lambda>(d, txt). d \<le> now) (timeouts st)
     in st\<lparr>readout := (if due = [] then readout st else snd (last due)),
           timeouts := filter (\<lambda>(d, txt). \<not> d \<le> now) (timeouts st)\<rparr>)"

datatype event = Frame real | Timers real

fun eventTime :: "event \<Rightarrow> real" where
  "eventTime (Frame t) = t"
| "eventTime (Timers t) = t"

fun runEvents :: "event list \<Rightarrow> sphere \<Rightarrow> sphere" where
  "runEvents [] st = st"
| "runEvents (Frame t # evs) st = runEvents evs (animationFrame t st)"
| "runEvents (Timers t # evs) st = runEvents evs (fireTimeouts t st)"

section \<open>Notions used to state the properties\<close>

definition unitQ :: "quat \<Rightarrow> bool" where
  \<comment> \<open>a unit quaternion (a rotation)\<close>
  "unitQ q \<longleftrightarrow> qx q * qx q + qy q * qy q + qz q * qz q + qw q * qw q = 1"

definition unitV :: "vec3 \<Rightarrow> bool" where
  "unitV v \<longleftrightarrow> vx v * vx v + vy v * vy v + vz v * vz v = 1"

definition sqDist :: "vec3 \<Rightarrow> vec3 \<Rightarrow> real" where
  \<comment> \<open>the squared Euclidean distance\<close>
  "sqDist a b = (vx a - vx b) * (vx a - vx b) + (vy a - vy b) * (vy a - vy b)
              + (vz a - vz b) * (vz a - vz b)"

fun frames :: "real list \<Rightarrow> state \<Rightarrow> state" where
  \<comment> \<open>the animation loop calling \<open>render\<close> at the given times, in order\<close>
  "frames [] st = st"
| "frames (t # ts) st = frames ts (render t st)"

section \<open>Reachable states\<close>

text \<open>
  The handlers that change the state of the polyhedron variant: the reseed button (whose
  argument is \<open>parseInt(nsides.value, 10) || 13\<close>, and which shows an en dash in the readout),
  a roll, and a frame. A state is reachable when the boot sequence followed by any of these
  produces it. \<open>invariant\<close> collects what all reachable states have in common (lemma
  \<open>reachable_invariant\<close>).
\<close>

definition reseedClick :: "int \<Rightarrow> state \<Rightarrow> js_error + state" where
  "reseedClick n st =
    (case setSeeds MAX_SEEDS n st of
       Inl e \<Rightarrow> Inl e
     | Inr st' \<Rightarrow> Inr (st'\<lparr>resultText := [CHR 0xE2, CHR 0x80, CHR 0x93]\<rparr>))"

inductive reachable :: "state \<Rightarrow> bool" where
  booted: "boot n txt = Inr st \<Longrightarrow> reachable st"
| reseeded: "reachable st \<Longrightarrow> reseedClick n st = Inr st' \<Longrightarrow> reachable st'"
| rolled: "reachable st \<Longrightarrow> reachable (rollTo idx now st)"
| drawn: "reachable st \<Longrightarrow> reachable (render now st)"

definition invariant :: "state \<Rightarrow> bool" where
  "invariant st \<longleftrightarrow>
     length (seeds st) = MAX_SEEDS \<and> 3 \<le> count st \<and> count st \<le> int MAX_SEEDS
   \<and> seedDirs st = Some (fibonacciSeeds (nat (count st)))
   \<and> take (nat (count st)) (seeds st) = fibonacciSeeds (nat (count st))
   \<and> offset st = POLY_OFFSET
   \<and> unitQ (rotQ st) \<and> rot st = rotationMatrix (rotQ st)
   \<and> (case anim st of None \<Rightarrow> True | Some a \<Rightarrow> unitQ (startQ a) \<and> unitQ (endQ a))"

section \<open>Integer coercion and index wrapping\<close>

declare fibLoop.simps [simp del] resetLoop.simps [simp del] copyLoop.simps [simp del] digits.simps [simp del]

lemma toInt32_id: "- 2147483648 \<le> n \<Longrightarrow> n < 2147483648 \<Longrightarrow> toInt32 n = n"
  by (simp add: toInt32_def)

lemma toInt32_range: "- 2147483648 \<le> toInt32 n \<and> toInt32 n < 2147483648"
proof -
  have "0 \<le> (n + 2147483648) mod 4294967296" "(n + 2147483648) mod 4294967296 < 4294967296"
    by simp_all
  then show ?thesis unfolding toInt32_def by linarith
qed

lemma js_rem_nonneg: "0 \<le> a \<Longrightarrow> 0 < b \<Longrightarrow> js_rem a b = a mod b"
  by (cases "a = 0") (simp_all add: js_rem_def)

lemma js_rem_neg: "a < 0 \<Longrightarrow> 0 < b \<Longrightarrow> js_rem a b = - ((- a) mod b)"
  by (simp add: js_rem_def)

lemma js_rem_bounds: "0 < b \<Longrightarrow> - b < js_rem a b \<and> js_rem a b < b"
proof (cases "0 \<le> a")
  case True
  assume b: "0 < b"
  have "0 \<le> a mod b" "a mod b < b" using b by simp_all
  with True b show ?thesis by (simp add: js_rem_nonneg)
next
  case False
  assume b: "0 < b"
  have "0 \<le> (- a) mod b" "(- a) mod b < b" using b by simp_all
  moreover have "js_rem a b = - ((- a) mod b)" using False b by (simp add: js_rem_neg)
  ultimately show ?thesis using b by linarith
qed

lemma js_rem_cong: "0 < b \<Longrightarrow> js_rem a b mod b = a mod b"
proof (cases "0 \<le> a")
  case True
  assume "0 < b"
  with True show ?thesis by (simp add: js_rem_nonneg)
next
  case False
  assume b: "0 < b"
  with False have "js_rem a b = - ((- a) mod b)" by (simp add: js_rem_neg)
  then have "js_rem a b mod b = (- ((- a) mod b)) mod b" by simp
  also have "\<dots> = (- (- a)) mod b" by (rule mod_minus_eq)
  finally show ?thesis by simp
qed

lemma wrap_js: "0 < b \<Longrightarrow> js_rem (js_rem a b + b) b = a mod b"
proof -
  assume b: "0 < b"
  from js_rem_bounds [OF b, of a] have pos: "0 \<le> js_rem a b + b" by linarith
  then have "js_rem (js_rem a b + b) b = (js_rem a b + b) mod b"
    using b by (simp add: js_rem_nonneg)
  also have "\<dots> = js_rem a b mod b" by simp
  also have "\<dots> = a mod b" using b by (rule js_rem_cong)
  finally show ?thesis .
qed

lemma wrapIndex_eq: "0 < len \<Longrightarrow> wrapIndex idx len = toInt32 idx mod len"
  by (simp add: wrapIndex_def wrap_js)

lemma fibLoop_eq: "fibLoop n i out = out @ map (seedAt n) [i..<n]"
proof (induction n i out rule: fibLoop.induct)
  case (1 n i out)
  show ?case
  proof (cases "i < n")
    case True
    with 1 show ?thesis
      by (subst fibLoop.simps) (simp add: upt_conv_Cons)
  next
    case False
    then show ?thesis by (subst fibLoop.simps) simp
  qed
qed

lemma fibonacciSeeds_eq: "fibonacciSeeds n = map (seedAt n) [0..<n]"
  by (simp add: fibonacciSeeds_def fibLoop_eq)

lemma resetLoop_eq:
  "i \<le> m \<Longrightarrow> m \<le> length ss \<Longrightarrow>
   resetLoop m i ss = Inr (take i ss @ replicate (m - i) (Vector3 1 0 0) @ drop m ss)"
proof (induction m i ss rule: resetLoop.induct)
  case (1 m i ss)
  show ?case
  proof (cases "i < m")
    case True
    with 1 have il: "i < length ss" by simp
    have "resetLoop m i ss = resetLoop m (Suc i) (ss[i := Vector3 1 0 0])"
      using True il by (subst resetLoop.simps) simp
    also have "\<dots> = Inr (take (Suc i) (ss[i := Vector3 1 0 0]) @ replicate (m - Suc i) (Vector3 1 0 0)
                 @ drop m (ss[i := Vector3 1 0 0]))"
      using 1 True il by simp
    also have "take (Suc i) (ss[i := Vector3 1 0 0]) = take i ss @ [Vector3 1 0 0]"
      using il by (simp add: take_Suc_conv_app_nth)
    also have "drop m (ss[i := Vector3 1 0 0]) = drop m ss"
      using True by simp
    also have "(take i ss @ [Vector3 1 0 0]) @ replicate (m - Suc i) (Vector3 1 0 0) @ drop m ss
             = take i ss @ replicate (m - i) (Vector3 1 0 0) @ drop m ss"
      using True by (simp add: Suc_diff_Suc flip: replicate_Suc)
    finally show ?thesis .
  next
    case False
    with 1 have "i = m" by simp
    then show ?thesis by (subst resetLoop.simps) simp
  qed
qed

lemma copyLoop_eq:
  "i \<le> n \<Longrightarrow> n \<le> length ss \<Longrightarrow> n \<le> length pts \<Longrightarrow>
   copyLoop n i pts ss = Inr (take i ss @ take (n - i) (drop i pts) @ drop n ss)"
proof (induction n i pts ss rule: copyLoop.induct)
  case (1 n i pts ss)
  show ?case
  proof (cases "i < n")
    case True
    with 1 have il: "i < length ss" "i < length pts" by simp_all
    have "copyLoop n i pts ss = copyLoop n (Suc i) pts (ss[i := pts ! i])"
      using True il by (subst copyLoop.simps) simp
    also have "\<dots> = Inr (take (Suc i) (ss[i := pts ! i]) @ take (n - Suc i) (drop (Suc i) pts)
                 @ drop n (ss[i := pts ! i]))"
      using 1 True il by simp
    also have "take (Suc i) (ss[i := pts ! i]) = take i ss @ [pts ! i]"
      using il by (simp add: take_Suc_conv_app_nth)
    also have "drop n (ss[i := pts ! i]) = drop n ss"
      using True by simp
    also have "(take i ss @ [pts ! i]) @ take (n - Suc i) (drop (Suc i) pts) @ drop n ss
             = take i ss @ take (n - i) (drop i pts) @ drop n ss"
    proof -
      have "drop i pts = pts ! i # drop (Suc i) pts"
        using il by (simp add: Cons_nth_drop_Suc)
      moreover have "n - i = Suc (n - Suc i)" using True by simp
      ultimately show ?thesis by simp
    qed
    finally show ?thesis .
  next
    case False
    with 1 have "i = n" by simp
    then show ?thesis by (subst copyLoop.simps) simp
  qed
qed

lemma setSeeds_eq:
  assumes "length (seeds st) = m" and "3 \<le> m"
  shows "setSeeds m n st =
    Inr (st\<lparr>seeds := fibonacciSeeds (nat (max 3 (min (int m) (toInt32 n))))
                      @ replicate (m - nat (max 3 (min (int m) (toInt32 n)))) (Vector3 1 0 0),
             count := max 3 (min (int m) (toInt32 n)),
             seedDirs := Some (fibonacciSeeds (nat (max 3 (min (int m) (toInt32 n)))))\<rparr>)"
proof -
  define k where "k = nat (max 3 (min (int m) (toInt32 n)))"
  have km: "k \<le> m" using assms by (simp add: k_def)
  have lp: "length (fibonacciSeeds k) = k" by (simp add: fibonacciSeeds_eq)
  have r: "resetLoop m 0 (seeds st) = Inr (replicate m (Vector3 1 0 0))"
    using assms by (simp add: resetLoop_eq)
  have c: "copyLoop k 0 (fibonacciSeeds k) (replicate m (Vector3 1 0 0))
         = Inr (fibonacciSeeds k @ replicate (m - k) (Vector3 1 0 0))"
    using km lp by (simp add: copyLoop_eq)
  show ?thesis
    unfolding setSeeds_def Let_def k_def [symmetric] by (simp add: r c)
qed

section \<open>The seed generator\<close>

lemma normalize_unit: "vlength v = 1 \<Longrightarrow> normalizeV v = v"
  by (cases v) (simp add: normalizeV_def multiplyScalar_def)

lemma seedAt_raw:
  assumes "i < n"
  defines "z \<equiv> 1 - 2 * ((real i + 1 / 2) / real n)"
  defines "r \<equiv> sqrt (max 0 (1 - z * z))"
  shows "seedAt n i = Vector3 (cos (real i * GOLDEN_ANGLE) * r) z (sin (real i * GOLDEN_ANGLE) * r)"
    and "vlength (seedAt n i) = 1"
proof -
  let ?phi = "real i * GOLDEN_ANGLE"
  let ?raw = "Vector3 (cos ?phi * r) z (sin ?phi * r)"
  have n: "0 < real n" using assms(1) by simp
  have t0: "0 < (real i + 1 / 2) / real n" using n by simp
  have t1: "(real i + 1 / 2) / real n < 1"
  proof -
    have "real i + 1 / 2 < real n" using assms(1) by linarith
    then show ?thesis using n by (simp add: field_simps)
  qed
  have z: "- 1 < z" "z < 1" unfolding z_def using t0 t1 by linarith+
  have zz: "z * z < 1"
  proof -
    have "\<bar>z\<bar> < 1" using z by simp
    then have "\<bar>z\<bar> * \<bar>z\<bar> < 1 * 1" by (intro mult_strict_mono) simp_all
    then show ?thesis by (simp add: abs_mult_self_eq)
  qed
  have rr: "r * r = 1 - z * z"
    using zz by (simp add: r_def max_def)
  have cs: "cos ?phi * cos ?phi + sin ?phi * sin ?phi = 1"
    using sin_cos_squared_add2 [of ?phi] by (simp add: power2_eq_square)
  have "(cos ?phi * r) * (cos ?phi * r) + z * z + (sin ?phi * r) * (sin ?phi * r)
      = (r * r) * (cos ?phi * cos ?phi + sin ?phi * sin ?phi) + z * z"
    by (simp only: algebra_simps)
  also have "\<dots> = 1" using rr cs by simp
  finally have len: "vlength ?raw = 1" by (simp add: vlength_def)
  have s: "seedAt n i = normalizeV ?raw"
    by (simp add: seedAt_def Let_def z_def r_def)
  show "seedAt n i = ?raw" using s len by (simp add: normalize_unit)
  then show "vlength (seedAt n i) = 1" using len by simp
qed

lemma fibonacciSeeds_length: "length (fibonacciSeeds n) = n"
  by (simp add: fibonacciSeeds_eq)

lemma fibonacciSeeds_nth: "i < n \<Longrightarrow> fibonacciSeeds n ! i = seedAt n i"
  by (simp add: fibonacciSeeds_eq)

lemma fibonacciSeeds_unit: "v \<in> set (fibonacciSeeds n) \<Longrightarrow> vlength v = 1"
  by (auto simp: fibonacciSeeds_eq seedAt_raw(2))

lemma seedAt_inj: "i < n \<Longrightarrow> j < n \<Longrightarrow> seedAt n i = seedAt n j \<Longrightarrow> i = j"
proof -
  assume i: "i < n" and j: "j < n" and e: "seedAt n i = seedAt n j"
  have yi: "vy (seedAt n i) = 1 - 2 * ((real i + 1 / 2) / real n)"
    by (subst seedAt_raw(1) [OF i]) simp
  have yj: "vy (seedAt n j) = 1 - 2 * ((real j + 1 / 2) / real n)"
    by (subst seedAt_raw(1) [OF j]) simp
  have "vy (seedAt n i) = vy (seedAt n j)" using e by simp
  then have "1 - 2 * ((real i + 1 / 2) / real n) = 1 - 2 * ((real j + 1 / 2) / real n)"
    by (simp only: yi yj)
  then have q: "(real i + 1 / 2) / real n = (real j + 1 / 2) / real n" by linarith
  have n: "real n \<noteq> 0" using i by simp
  from q n have "real i + 1 / 2 = real j + 1 / 2" by (simp only: divide_cancel_right) simp
  then show "i = j" by simp
qed

lemma fibonacciSeeds_distinct: "distinct (fibonacciSeeds n)"
proof -
  have "inj_on (seedAt n) (set [0..<n])"
    by (rule inj_onI) (auto dest: seedAt_inj)
  then show ?thesis by (simp add: fibonacciSeeds_eq distinct_map)
qed

text \<open>
  C3. For every \<open>n\<close> (in particular every \<open>n\<close> in \<open>[3, MAX_SEEDS]\<close>), \<open>fibonacciSeeds(n)\<close> returns
  exactly \<open>n\<close> vectors; the \<open>i\<close>-th is the normalization of \<open>(cos(phi)*r, z, sin(phi)*r)\<close> with
  \<open>t = (i + 0.5)/n\<close>, \<open>z = 1 - 2t\<close>, \<open>r = sqrt(max(0, 1 - z\<^sup>2))\<close>, \<open>phi = i * pi * (3 - sqrt 5)\<close>;
  every returned vector has norm 1 (exactly, in real arithmetic) and no two are identical.
  The result is a function of \<open>n\<close> alone, so two calls with the same \<open>n\<close> return the same
  vectors.
\<close>

theorem fibonacciSeeds_lattice:
  "length (fibonacciSeeds n) = n
   \<and> (\<forall>i<n. fibonacciSeeds n ! i =
         normalizeV (Vector3
           (cos (real i * (pi * (3 - sqrt 5))) * sqrt (max 0 (1 - (1 - 2 * ((real i + 1 / 2) / real n))\<^sup>2)))
           (1 - 2 * ((real i + 1 / 2) / real n))
           (sin (real i * (pi * (3 - sqrt 5))) * sqrt (max 0 (1 - (1 - 2 * ((real i + 1 / 2) / real n))\<^sup>2)))))
   \<and> (\<forall>v \<in> set (fibonacciSeeds n). vlength v = 1)
   \<and> distinct (fibonacciSeeds n)"
proof -
  have "fibonacciSeeds n ! i =
         normalizeV (Vector3
           (cos (real i * (pi * (3 - sqrt 5))) * sqrt (max 0 (1 - (1 - 2 * ((real i + 1 / 2) / real n))\<^sup>2)))
           (1 - 2 * ((real i + 1 / 2) / real n))
           (sin (real i * (pi * (3 - sqrt 5))) * sqrt (max 0 (1 - (1 - 2 * ((real i + 1 / 2) / real n))\<^sup>2))))"
    if "i < n" for i
    using that by (simp add: fibonacciSeeds_nth seedAt_def Let_def GOLDEN_ANGLE_def power2_eq_square)
  then show ?thesis
    by (simp add: fibonacciSeeds_length fibonacciSeeds_unit fibonacciSeeds_distinct)
qed

theorem fibonacciSeeds_lattice_witness:
  "length (fibonacciSeeds 3) = 3
   \<and> fibonacciSeeds 3 ! 1 = normalizeV (Vector3 (cos (pi * (3 - sqrt 5))) 0 (sin (pi * (3 - sqrt 5))))
   \<and> vlength (fibonacciSeeds 3 ! 1) = 1
   \<and> fibonacciSeeds 3 ! 0 \<noteq> fibonacciSeeds 3 ! 1"
proof -
  note th = fibonacciSeeds_lattice [of 3]
  have l: "length (fibonacciSeeds 3) = 3" using th by simp
  from th have "fibonacciSeeds 3 ! 1 =
         normalizeV (Vector3
           (cos (real 1 * (pi * (3 - sqrt 5))) * sqrt (max 0 (1 - (1 - 2 * ((real 1 + 1 / 2) / real 3))\<^sup>2)))
           (1 - 2 * ((real 1 + 1 / 2) / real 3))
           (sin (real 1 * (pi * (3 - sqrt 5))) * sqrt (max 0 (1 - (1 - 2 * ((real 1 + 1 / 2) / real 3))\<^sup>2))))"
    by (metis one_less_numeral_iff semiring_norm(77))
  then have n: "fibonacciSeeds 3 ! 1 = normalizeV (Vector3 (cos (pi * (3 - sqrt 5))) 0 (sin (pi * (3 - sqrt 5))))"
    by simp
  have u: "vlength (fibonacciSeeds 3 ! 1) = 1"
    using th l by (metis nth_mem one_less_numeral_iff semiring_norm(77))
  have "distinct (fibonacciSeeds 3)" using th by blast
  then have d: "fibonacciSeeds 3 ! 0 \<noteq> fibonacciSeeds 3 ! 1"
    using l by (simp add: nth_eq_iff_index_eq)
  from l n u d show ?thesis by blast
qed

section \<open>Reseeding\<close>

text \<open>
  C6 (as amended). For every integer input \<open>n\<close>, \<open>setSeeds(n)\<close> never rejects the input and sets
  the active face count to \<open>n|0\<close> clamped into \<open>[3, MAX_SEEDS]\<close>; this is \<open>n\<close> itself clamped
  whenever \<open>n\<close> lies in the signed 32-bit range. Afterwards \<open>3 \<le> count \<le> MAX_SEEDS\<close>, the first
  \<open>count\<close> stored normals are the freshly generated seeds, and each of them has length 1.
\<close>

theorem setSeeds_clamps:
  assumes "length (seeds st) = m" and "3 \<le> m"
  shows "\<exists>st'. setSeeds m n st = Inr st'
          \<and> count st' = max 3 (min (int m) (toInt32 n))
          \<and> 3 \<le> count st' \<and> count st' \<le> int m
          \<and> (- 2147483648 \<le> n \<and> n < 2147483648 \<longrightarrow> count st' = max 3 (min (int m) n))
          \<and> length (seeds st') = m
          \<and> take (nat (count st')) (seeds st') = fibonacciSeeds (nat (count st'))
          \<and> seedDirs st' = Some (fibonacciSeeds (nat (count st')))
          \<and> (\<forall>v \<in> set (fibonacciSeeds (nat (count st'))). vlength v = 1)"
proof -
  define k where "k = max 3 (min (int m) (toInt32 n))"
  define st' where "st' = st\<lparr>seeds := fibonacciSeeds (nat k) @ replicate (m - nat k) (Vector3 1 0 0),
                              count := k, seedDirs := Some (fibonacciSeeds (nat k))\<rparr>"
  have run: "setSeeds m n st = Inr st'"
    unfolding st'_def k_def by (rule setSeeds_eq [OF assms])
  have k: "3 \<le> k" "k \<le> int m" using assms(2) by (simp_all add: k_def)
  have c: "count st' = k" by (simp add: st'_def)
  have inrange: "- 2147483648 \<le> n \<and> n < 2147483648 \<longrightarrow> k = max 3 (min (int m) n)"
    by (simp add: k_def toInt32_id)
  have len: "length (seeds st') = m"
    using k by (simp add: st'_def fibonacciSeeds_length)
  have tk: "take (nat k) (seeds st') = fibonacciSeeds (nat k)"
    by (simp add: st'_def fibonacciSeeds_length)
  have sd: "seedDirs st' = Some (fibonacciSeeds (nat k))" by (simp add: st'_def)
  have un: "\<forall>v \<in> set (fibonacciSeeds (nat k)). vlength v = 1"
    by (simp add: fibonacciSeeds_unit)
  show ?thesis
    using run k c inrange len tk sd un by (intro exI [of _ st']) (simp add: k_def [symmetric])
qed

theorem setSeeds_clamps_witness:
  "(case setSeeds MAX_SEEDS 2 (initState MAX_SEEDS []) of Inl e \<Rightarrow> False | Inr st' \<Rightarrow> count st' = 3)
   \<and> (case setSeeds MAX_SEEDS 1000 (initState MAX_SEEDS []) of Inl e \<Rightarrow> False | Inr st' \<Rightarrow> count st' = 128)
   \<and> (case setSeeds MAX_SEEDS_sphere 1000 (initState MAX_SEEDS_sphere []) of
         Inl e \<Rightarrow> False | Inr st' \<Rightarrow> count st' = 256)"
proof -
  have a: "length (seeds (initState MAX_SEEDS [])) = MAX_SEEDS" "3 \<le> MAX_SEEDS"
    by (simp_all add: initState_def MAX_SEEDS_def)
  have b: "length (seeds (initState MAX_SEEDS_sphere [])) = MAX_SEEDS_sphere" "3 \<le> MAX_SEEDS_sphere"
    by (simp_all add: initState_def MAX_SEEDS_sphere_def)
  from setSeeds_clamps [OF a, of 2] have 1:
    "case setSeeds MAX_SEEDS 2 (initState MAX_SEEDS []) of Inl e \<Rightarrow> False | Inr st' \<Rightarrow> count st' = 3"
    by (auto simp: toInt32_def MAX_SEEDS_def)
  from setSeeds_clamps [OF a, of 1000] have 2:
    "case setSeeds MAX_SEEDS 1000 (initState MAX_SEEDS []) of Inl e \<Rightarrow> False | Inr st' \<Rightarrow> count st' = 128"
    by (auto simp: toInt32_def MAX_SEEDS_def)
  from setSeeds_clamps [OF b, of 1000] have 3:
    "case setSeeds MAX_SEEDS_sphere 1000 (initState MAX_SEEDS_sphere []) of
       Inl e \<Rightarrow> False | Inr st' \<Rightarrow> count st' = 256"
    by (auto simp: toInt32_def MAX_SEEDS_sphere_def)
  from 1 2 3 show ?thesis by simp
qed

text \<open>
  The claim as stated fails outside the 32-bit range: \<open>setSeeds(4294967346)\<close> gives 50 faces,
  not \<open>MAX_SEEDS\<close>.
\<close>

theorem setSeeds_wraps_counterexample:
  "(case setSeeds MAX_SEEDS 4294967346 (initState MAX_SEEDS []) of
      Inl e \<Rightarrow> False
    | Inr st' \<Rightarrow> count st' = 50 \<and> count st' \<noteq> max 3 (min (int MAX_SEEDS) 4294967346))"
proof -
  have a: "length (seeds (initState MAX_SEEDS [])) = MAX_SEEDS" "3 \<le> MAX_SEEDS"
    by (simp_all add: initState_def MAX_SEEDS_def)
  show ?thesis
    unfolding setSeeds_eq [OF a] by (simp add: toInt32_def MAX_SEEDS_def)
qed

section \<open>Rolling\<close>

lemma wrapIndex_bounds: "0 < len \<Longrightarrow> 0 \<le> wrapIndex idx len \<and> wrapIndex idx len < len"
  by (simp add: wrapIndex_eq)

lemma rollTo_some:
  assumes "seedDirs st = Some dirs" and "dirs \<noteq> []"
  shows "rollTo idx now st =
    st\<lparr>anim := Some \<lparr>startQ = rotQ st,
                       endQ = multiply (setFromUnitVectors
                                (normalizeV (applyQuaternion (dirs ! nat (wrapIndex idx (int (length dirs)))) (rotQ st)))
                                zWorld) (rotQ st),
                       startTime = now, dur = DURATION_MS\<rparr>,
        resultText := resultString (wrapIndex idx (int (length dirs))) (int (length dirs))\<rparr>"
  using assms by (simp add: rollTo_def Let_def)

lemma rollTo_none: "seedDirs st = None \<or> seedDirs st = Some [] \<Longrightarrow> rollTo idx now st = st"
  by (auto simp: rollTo_def)

lemma render_idle: "anim st = None \<Longrightarrow> render now st = st"
  by (simp add: render_def)

lemma render_some:
  assumes "anim st = Some a"
  shows "render now st =
    st\<lparr>rotQ := slerp (startQ a) (endQ a) (1 - (1 - min 1 ((now - startTime a) / dur a)) ^ 3),
        rot := rotationMatrix (slerp (startQ a) (endQ a) (1 - (1 - min 1 ((now - startTime a) / dur a)) ^ 3)),
        anim := (if 1 \<le> (now - startTime a) / dur a then None else Some a)\<rparr>"
  using assms by (simp add: render_def Let_def min_def)

lemma rollToSphere_none:
  "userSeedDirs sp = None \<or> userSeedDirs sp = Some [] \<Longrightarrow> rollToSphere idx tStart tTick tSched sp = sp"
  by (auto simp: rollToSphere_def)

lemma tick_running:
  assumes "(now - tickStartTime c) / DURATION_MS_sphere < 1"
  shows "tick now c sp =
    sp\<lparr>quaternion := slerp (tickStart c) (tickEnd c)
                        (1 - (1 - (now - tickStartTime c) / DURATION_MS_sphere) ^ 3),
       rafTick := Some c\<rparr>"
proof -
  let ?x = "(now - tickStartTime c) / DURATION_MS_sphere"
  have m: "min 1 ?x = ?x" using assms by simp
  have "0 < (1 - ?x) ^ 3" using assms by (intro zero_less_power) simp
  then have "1 - (1 - ?x) ^ 3 < 1" by simp
  then show ?thesis by (simp add: tick_def Let_def m)
qed

text \<open>
  C7 (as amended). In every state whose seed list is non-empty, the target face index that
  \<open>rollTo(idx)\<close> uses is \<open>idx|0\<close> reduced modulo the number of seed directions into
  \<open>[0, count)\<close>, negative values wrapping, and the readout names that face. Whenever \<open>idx\<close> and
  \<open>idx + count\<close> both lie in the signed 32-bit range, the index is \<open>idx mod count\<close> and
  \<open>rollTo(idx)\<close> and \<open>rollTo(idx + count)\<close> are the same roll.
\<close>

theorem rollTo_modulo:
  assumes "seedDirs st = Some dirs" and "dirs \<noteq> []"
  shows "wrapIndex idx (int (length dirs)) = toInt32 idx mod int (length dirs)
       \<and> 0 \<le> wrapIndex idx (int (length dirs)) \<and> wrapIndex idx (int (length dirs)) < int (length dirs)
       \<and> resultText (rollTo idx now st)
           = resultString (toInt32 idx mod int (length dirs)) (int (length dirs))
       \<and> (- 2147483648 \<le> idx \<and> idx + int (length dirs) < 2147483648 \<longrightarrow>
            wrapIndex idx (int (length dirs)) = idx mod int (length dirs)
          \<and> rollTo (idx + int (length dirs)) now st = rollTo idx now st)"
proof -
  let ?len = "int (length dirs)"
  have len: "0 < ?len" using assms(2) by simp
  have w: "wrapIndex idx ?len = toInt32 idx mod ?len" using len by (rule wrapIndex_eq)
  have b: "0 \<le> wrapIndex idx ?len \<and> wrapIndex idx ?len < ?len" using len by (rule wrapIndex_bounds)
  have r: "resultText (rollTo idx now st) = resultString (toInt32 idx mod ?len) ?len"
    by (simp add: rollTo_some [OF assms] w)
  have m: "wrapIndex idx ?len = idx mod ?len \<and> rollTo (idx + ?len) now st = rollTo idx now st"
    if "- 2147483648 \<le> idx" and "idx + ?len < 2147483648"
  proof -
    have i1: "toInt32 idx = idx" using that len by (intro toInt32_id) simp_all
    have i2: "toInt32 (idx + ?len) = idx + ?len" using that len by (intro toInt32_id) simp_all
    have "wrapIndex (idx + ?len) ?len = wrapIndex idx ?len"
      using len by (simp add: wrapIndex_eq i1 i2)
    then show ?thesis
      by (simp add: rollTo_some [OF assms] w i1)
  qed
  from w b r m show ?thesis by blast
qed

theorem rollTo_modulo_witness:
  "wrapIndex (- 1) 3 = 2 \<and> wrapIndex 5 3 = 2
   \<and> rollTo 5 0 ((initState MAX_SEEDS [])\<lparr>seedDirs := Some (fibonacciSeeds 3)\<rparr>)
     = rollTo 2 0 ((initState MAX_SEEDS [])\<lparr>seedDirs := Some (fibonacciSeeds 3)\<rparr>)"
proof -
  let ?st = "(initState MAX_SEEDS [])\<lparr>seedDirs := Some (fibonacciSeeds 3)\<rparr>"
  have a: "seedDirs ?st = Some (fibonacciSeeds 3)" by simp
  have l: "length (fibonacciSeeds 3) = 3" by (rule fibonacciSeeds_length)
  have b: "fibonacciSeeds 3 \<noteq> []" using l by auto
  from rollTo_modulo [OF a b, of "- 1" 0] have 1: "wrapIndex (- 1) 3 = 2"
    by (simp add: l toInt32_def)
  from rollTo_modulo [OF a b, of 5 0] have 2: "wrapIndex 5 3 = 2"
    by (simp add: l toInt32_def)
  from rollTo_modulo [OF a b, of 2 0] have 3: "rollTo 5 0 ?st = rollTo 2 0 ?st"
    by (simp add: l toInt32_def)
  from 1 2 3 show ?thesis by simp
qed

text \<open>
  The claim as stated fails where \<open>idx + count\<close> leaves the 32-bit range: with three faces,
  \<open>rollTo(2147483647)\<close> selects face 1 and \<open>rollTo(2147483647 + 3)\<close> selects face 0.
\<close>

theorem rollTo_wraps_counterexample:
  "(case setSeeds MAX_SEEDS 3 (initState MAX_SEEDS []) of
      Inl e \<Rightarrow> False
    | Inr st \<Rightarrow> count st = 3
        \<and> resultText (rollTo 2147483647 0 st) = ''Result: 2 / d3''
        \<and> resultText (rollTo (2147483647 + 3) 0 st) = ''Result: 1 / d3'')"
proof -
  have a: "length (seeds (initState MAX_SEEDS [])) = MAX_SEEDS" "3 \<le> MAX_SEEDS"
    by (simp_all add: initState_def MAX_SEEDS_def)
  have t: "toInt32 3 = 3" by (simp add: toInt32_def)
  have l: "length (fibonacciSeeds 3) = 3" by (rule fibonacciSeeds_length)
  have b: "fibonacciSeeds 3 \<noteq> []" using l by auto
  have w1: "wrapIndex 2147483647 3 = 1" by (simp add: wrapIndex_eq toInt32_def)
  have w2: "wrapIndex 2147483650 3 = 0" by (simp add: wrapIndex_eq toInt32_def)
  have d: "digits (Suc 0) = ''1''" "digits 2 = ''2''" "digits 3 = ''3''"
    by (simp_all add: digits.simps)
  show ?thesis
    unfolding setSeeds_eq [OF a]
    by (simp add: t MAX_SEEDS_def rollTo_def Let_def l b w1 w2 resultString_def numberToString_def d)
qed

text \<open>
  C9. If \<open>rollTo\<close> is called before any seeds have been generated (the stored seed-direction
  list is absent or empty), it returns at once, in the polyhedron variant and in the sphere
  variant alike: the state after the call is the state before it, so no animation is started
  and orientation, animation state, pending callbacks and readout are unchanged.
\<close>

theorem rollTo_without_seeds:
  "(seedDirs st = None \<or> seedDirs st = Some [] \<longrightarrow> rollTo idx now st = st)
   \<and> (userSeedDirs sp = None \<or> userSeedDirs sp = Some [] \<longrightarrow>
        rollToSphere idx tStart tTick tSched sp = sp)"
  by (simp add: rollTo_none rollToSphere_none)

theorem rollTo_without_seeds_witness:
  "rollTo 7 0 (initState MAX_SEEDS ''-'') = initState MAX_SEEDS ''-''
   \<and> rollTo 7 0 ((initState MAX_SEEDS ''-'')\<lparr>seedDirs := Some []\<rparr>)
     = (initState MAX_SEEDS ''-'')\<lparr>seedDirs := Some []\<rparr>
   \<and> rollToSphere 7 0 0 0 \<lparr>userSeedDirs = None, quaternion = Quaternion 0 0 0 1,
                             rafTick = None, timeouts = [], readout = ''-''\<rparr>
     = \<lparr>userSeedDirs = None, quaternion = Quaternion 0 0 0 1,
        rafTick = None, timeouts = [], readout = ''-''\<rparr>"
proof -
  let ?sp = "\<lparr>userSeedDirs = None, quaternion = Quaternion 0 0 0 1,
              rafTick = None, timeouts = [], readout = ''-''\<rparr>"
  have 1: "seedDirs (initState MAX_SEEDS ''-'') = None
         \<or> seedDirs (initState MAX_SEEDS ''-'') = Some []"
    by (simp add: initState_def)
  have 2: "seedDirs ((initState MAX_SEEDS ''-'')\<lparr>seedDirs := Some []\<rparr>) = None
         \<or> seedDirs ((initState MAX_SEEDS ''-'')\<lparr>seedDirs := Some []\<rparr>) = Some []"
    by simp
  have 3: "userSeedDirs ?sp = None \<or> userSeedDirs ?sp = Some []" by simp
  from rollTo_without_seeds [where st = "initState MAX_SEEDS ''-''" and sp = ?sp and idx = 7
      and now = 0 and tStart = 0 and tTick = 0 and tSched = 0] 1 3
  have a: "rollTo 7 0 (initState MAX_SEEDS ''-'') = initState MAX_SEEDS ''-''"
    and c: "rollToSphere 7 0 0 0 ?sp = ?sp" by blast+
  from rollTo_without_seeds [where st = "(initState MAX_SEEDS ''-'')\<lparr>seedDirs := Some []\<rparr>"
      and sp = ?sp and idx = 7 and now = 0] 2
  have b: "rollTo 7 0 ((initState MAX_SEEDS ''-'')\<lparr>seedDirs := Some []\<rparr>)
     = (initState MAX_SEEDS ''-'')\<lparr>seedDirs := Some []\<rparr>" by blast
  from a b c show ?thesis by blast
qed

text \<open>
  C10 (as amended). Neither \<open>rollTo\<close> nor the per-frame step modifies the stored seed
  directions, the uniform seed array or the active face count, for any index and any frame
  time: \<open>rollTo\<close> changes only the animation state and the result readout, and a frame changes
  only the current orientation (with the rotation uniform derived from it) and the animation
  state.
\<close>

theorem roll_and_frame_leave_seeds:
  "rollTo idx now st = st\<lparr>anim := anim (rollTo idx now st), resultText := resultText (rollTo idx now st)\<rparr>
   \<and> render now st = st\<lparr>rotQ := rotQ (render now st), rot := rot (render now st),
                         anim := anim (render now st)\<rparr>
   \<and> seeds (rollTo idx now st) = seeds st \<and> count (rollTo idx now st) = count st
   \<and> seedDirs (rollTo idx now st) = seedDirs st
   \<and> seeds (render now st) = seeds st \<and> count (render now st) = count st
   \<and> seedDirs (render now st) = seedDirs st"
proof -
  have r: "rollTo idx now st = st\<lparr>anim := anim (rollTo idx now st), resultText := resultText (rollTo idx now st)\<rparr>"
  proof (cases "seedDirs st = None \<or> seedDirs st = Some []")
    case True
    then show ?thesis by (simp add: rollTo_none)
  next
    case False
    then obtain dirs where "seedDirs st = Some dirs" "dirs \<noteq> []" by auto
    then show ?thesis by (simp add: rollTo_some)
  qed
  have f: "render now st = st\<lparr>rotQ := rotQ (render now st), rot := rot (render now st),
                         anim := anim (render now st)\<rparr>"
  proof (cases "anim st")
    case None
    then show ?thesis by (simp add: render_idle)
  next
    case (Some a)
    then show ?thesis by (simp add: render_some)
  qed
  have "seeds (rollTo idx now st) = seeds st \<and> count (rollTo idx now st) = count st
      \<and> seedDirs (rollTo idx now st) = seedDirs st"
    by (subst r, simp)+
  moreover have "seeds (render now st) = seeds st \<and> count (render now st) = count st
      \<and> seedDirs (render now st) = seedDirs st"
    by (subst f, simp)+
  ultimately show ?thesis using r f by blast
qed

text \<open>
  The claim as stated fails in one respect: \<open>rollTo\<close> also writes the result readout.
\<close>

theorem rollTo_writes_readout_counterexample:
  "(case setSeeds MAX_SEEDS 3 (initState MAX_SEEDS ''-'') of
      Inl e \<Rightarrow> False
    | Inr st \<Rightarrow> resultText st = ''-'' \<and> resultText (rollTo 0 0 st) = ''Result: 1 / d3'')"
proof -
  have a: "length (seeds (initState MAX_SEEDS ''-'')) = MAX_SEEDS" "3 \<le> MAX_SEEDS"
    by (simp_all add: initState_def MAX_SEEDS_def)
  have t: "toInt32 3 = 3" by (simp add: toInt32_def)
  have l: "length (fibonacciSeeds 3) = 3" by (rule fibonacciSeeds_length)
  have b: "fibonacciSeeds 3 \<noteq> []" using l by auto
  have w1: "wrapIndex 0 3 = 0" by (simp add: wrapIndex_eq toInt32_def)
  have d: "digits (Suc 0) = ''1''" "digits 3 = ''3''"
    by (simp_all add: digits.simps)
  show ?thesis
    unfolding setSeeds_eq [OF a]
    by (simp add: t MAX_SEEDS_def rollTo_def Let_def l b w1 resultString_def numberToString_def d
        initState_def)
qed

text \<open>
  C8. If \<open>rollTo\<close> is called while a roll is in progress (the last frame was drawn at elapsed
  fraction below 1), the orientation at that moment is the interpolation that frame computed,
  the new animation starts from exactly that orientation (not from the start orientation of
  the animation it replaces), and nothing of the old animation survives: whatever the old
  animation state was, the call gives the same result. This holds for the polyhedron variant
  (the \<open>anim\<close> record) and for the sphere variant (the pending frame callback with its captured
  start and end).
\<close>

theorem rollTo_replaces_running_animation:
  assumes "seedDirs st = Some dirs" and "dirs \<noteq> []"
    and "anim st = Some a" and "(tFrame - startTime a) / dur a < 1"
    and "userSeedDirs sp = Some dirs"
    and "rafTick sp = Some c" and "(tAnim - tickStartTime c) / DURATION_MS_sphere < 1"
    and "(tTick - tStart) / DURATION_MS_sphere < 1"
  shows "anim (render tFrame st) = Some a
       \<and> rotQ (render tFrame st) = slerp (startQ a) (endQ a) (1 - (1 - (tFrame - startTime a) / dur a) ^ 3)
       \<and> anim (rollTo idx tRoll (render tFrame st)) =
           Some \<lparr>startQ = rotQ (render tFrame st),
                 endQ = multiply (setFromUnitVectors
                          (normalizeV (applyQuaternion (dirs ! nat (wrapIndex idx (int (length dirs))))
                                        (rotQ (render tFrame st))))
                          zWorld) (rotQ (render tFrame st)),
                 startTime = tRoll, dur = DURATION_MS\<rparr>
       \<and> rollTo idx tRoll ((render tFrame st)\<lparr>anim := other\<rparr>) = rollTo idx tRoll (render tFrame st)
       \<and> quaternion (animationFrame tAnim sp)
           = slerp (tickStart c) (tickEnd c) (1 - (1 - (tAnim - tickStartTime c) / DURATION_MS_sphere) ^ 3)
       \<and> rafTick (rollToSphere idx tStart tTick tSched (animationFrame tAnim sp)) =
           Some \<lparr>tickStart = quaternion (animationFrame tAnim sp),
                 tickEnd = multiply (setFromUnitVectors
                          (normalizeV (applyQuaternion (dirs ! nat (wrapIndex idx (int (length dirs))))
                                        (quaternion (animationFrame tAnim sp))))
                          (Vector3 0 0 1)) (quaternion (animationFrame tAnim sp)),
                 tickStartTime = tStart\<rparr>
       \<and> rollToSphere idx tStart tTick tSched ((animationFrame tAnim sp)\<lparr>rafTick := pending\<rparr>)
           = rollToSphere idx tStart tTick tSched (animationFrame tAnim sp)"
proof -
  let ?st1 = "render tFrame st"
  have t: "min 1 ((tFrame - startTime a) / dur a) = (tFrame - startTime a) / dur a"
    using assms(4) by simp
  have r: "?st1 = st\<lparr>rotQ := slerp (startQ a) (endQ a) (1 - (1 - (tFrame - startTime a) / dur a) ^ 3),
        rot := rotationMatrix (slerp (startQ a) (endQ a) (1 - (1 - (tFrame - startTime a) / dur a) ^ 3)),
        anim := Some a\<rparr>"
    using assms(4) by (simp add: render_some [OF assms(3)] t)
  have 1: "anim ?st1 = Some a" by (subst r) simp
  have 2: "rotQ ?st1 = slerp (startQ a) (endQ a) (1 - (1 - (tFrame - startTime a) / dur a) ^ 3)"
    by (subst r) simp
  have sd: "seedDirs ?st1 = Some dirs" using assms(1) by (subst r) simp
  have sd': "seedDirs (?st1\<lparr>anim := other\<rparr>) = Some dirs" using sd by simp
  have 3: "anim (rollTo idx tRoll ?st1) =
           Some \<lparr>startQ = rotQ ?st1,
                 endQ = multiply (setFromUnitVectors
                          (normalizeV (applyQuaternion (dirs ! nat (wrapIndex idx (int (length dirs))))
                                        (rotQ ?st1)))
                          zWorld) (rotQ ?st1),
                 startTime = tRoll, dur = DURATION_MS\<rparr>"
    by (simp add: rollTo_some [OF sd assms(2)])
  have 4: "rollTo idx tRoll (?st1\<lparr>anim := other\<rparr>) = rollTo idx tRoll ?st1"
    by (simp add: rollTo_some [OF sd assms(2)] rollTo_some [OF sd' assms(2)])
  let ?sp1 = "animationFrame tAnim sp"
  have f: "?sp1 = sp\<lparr>quaternion := slerp (tickStart c) (tickEnd c)
                        (1 - (1 - (tAnim - tickStartTime c) / DURATION_MS_sphere) ^ 3),
       rafTick := Some c\<rparr>"
    by (simp add: animationFrame_def assms(6) tick_running [OF assms(7)])
  have 5: "quaternion ?sp1
      = slerp (tickStart c) (tickEnd c) (1 - (1 - (tAnim - tickStartTime c) / DURATION_MS_sphere) ^ 3)"
    by (subst f) simp
  have ud: "userSeedDirs ?sp1 = Some dirs" using assms(5) by (subst f) simp
  let ?k = "\<lparr>tickStart = quaternion ?sp1,
                 tickEnd = multiply (setFromUnitVectors
                          (normalizeV (applyQuaternion (dirs ! nat (wrapIndex idx (int (length dirs))))
                                        (quaternion ?sp1)))
                          (Vector3 0 0 1)) (quaternion ?sp1),
                 tickStartTime = tStart\<rparr>"
  have tk: "(tTick - tickStartTime ?k) / DURATION_MS_sphere < 1" using assms(8) by simp
  have 6: "rafTick (rollToSphere idx tStart tTick tSched ?sp1) = Some ?k"
    using ud assms(2) by (simp add: rollToSphere_def Let_def tick_running [OF tk])
  have 7: "rollToSphere idx tStart tTick tSched (?sp1\<lparr>rafTick := pending\<rparr>)
           = rollToSphere idx tStart tTick tSched ?sp1"
    using ud assms(2) by (simp add: rollToSphere_def Let_def)
  from 1 2 3 4 5 6 7 show ?thesis by blast
qed

theorem rollTo_replaces_running_animation_witness:
  "startQ (the (anim (rollTo 1 500
      (render 450 ((initState MAX_SEEDS [])\<lparr>seedDirs := Some (fibonacciSeeds 3),
          anim := Some \<lparr>startQ = Quaternion 0 0 0 1, endQ = Quaternion 1 0 0 0,
                         startTime = 0, dur = 900\<rparr>\<rparr>)))))
   = slerp (Quaternion 0 0 0 1) (Quaternion 1 0 0 0) (7 / 8)
   \<and> tickStart (the (rafTick (rollToSphere 1 500 500 500
        (animationFrame 500 \<lparr>userSeedDirs = Some (fibonacciSeeds 3), quaternion = Quaternion 0 0 0 1,
           rafTick = Some \<lparr>tickStart = Quaternion 0 0 0 1, tickEnd = Quaternion 1 0 0 0,
                            tickStartTime = 0\<rparr>,
           timeouts = [], readout = ''-''\<rparr>))))
   = slerp (Quaternion 0 0 0 1) (Quaternion 1 0 0 0) (7 / 8)"
proof -
  let ?a = "\<lparr>startQ = Quaternion 0 0 0 1, endQ = Quaternion 1 0 0 0, startTime = 0, dur = 900\<rparr>"
  let ?st = "(initState MAX_SEEDS [])\<lparr>seedDirs := Some (fibonacciSeeds 3), anim := Some ?a\<rparr>"
  let ?c = "\<lparr>tickStart = Quaternion 0 0 0 1, tickEnd = Quaternion 1 0 0 0, tickStartTime = 0\<rparr>"
  let ?sp = "\<lparr>userSeedDirs = Some (fibonacciSeeds 3), quaternion = Quaternion 0 0 0 1,
           rafTick = Some ?c, timeouts = [], readout = ''-''\<rparr>"
  have a: "seedDirs ?st = Some (fibonacciSeeds 3)" by simp
  have l: "length (fibonacciSeeds 3) = 3" by (rule fibonacciSeeds_length)
  have b: "fibonacciSeeds 3 \<noteq> []" using l by auto
  have c: "anim ?st = Some ?a" by simp
  have d: "(450 - startTime ?a) / dur ?a < 1" by simp
  have e: "userSeedDirs ?sp = Some (fibonacciSeeds 3)" by simp
  have f: "rafTick ?sp = Some ?c" by simp
  have g: "(500 - tickStartTime ?c) / DURATION_MS_sphere < 1" by (simp add: DURATION_MS_sphere_def)
  have h: "((500::real) - 500) / DURATION_MS_sphere < 1" by (simp add: DURATION_MS_sphere_def)
  have p: "1 - (1 / 2) ^ 3 = (7 / 8 :: real)"
    by (simp add: power3_eq_cube)
  from rollTo_replaces_running_animation [OF a b c d e f g h,
      where idx = 1 and tRoll = 500 and other = None and tSched = 500 and pending = None]
  show ?thesis
    by (simp add: p DURATION_MS_sphere_def)
qed

section \<open>Rotations\<close>

lemma mulMV_rotationMatrix: "mulMV (rotationMatrix q) v = applyQuaternion v q"
  by (cases q; cases v) (simp add: mulMV_def rotationMatrix_def applyQuaternion_def dot_def Let_def algebra_simps)

lemma unitQ_multiply: "unitQ a \<Longrightarrow> unitQ b \<Longrightarrow> unitQ (multiply a b)"
proof -
  assume a: "unitQ a" and b: "unitQ b"
  obtain ax ay az aw where A: "a = Quaternion ax ay az aw" by (cases a)
  obtain bx "by" bz bw where B: "b = Quaternion bx by bz bw" by (cases b)
  have "(ax * bw + aw * bx + ay * bz - az * by) * (ax * bw + aw * bx + ay * bz - az * by)
      + (ay * bw + aw * by + az * bx - ax * bz) * (ay * bw + aw * by + az * bx - ax * bz)
      + (az * bw + aw * bz + ax * by - ay * bx) * (az * bw + aw * bz + ax * by - ay * bx)
      + (aw * bw - ax * bx - ay * by - az * bz) * (aw * bw - ax * bx - ay * by - az * bz)
      = (ax * ax + ay * ay + az * az + aw * aw) * (bx * bx + by * by + bz * bz + bw * bw)"
    by (simp add: algebra_simps)
  then show ?thesis using a b by (simp add: unitQ_def multiply_def A B)
qed

lemma applyQuaternion_multiply:
  assumes "unitQ a" and "unitQ b"
  shows "applyQuaternion v (multiply a b) = applyQuaternion (applyQuaternion v b) a"
proof -
  obtain ax ay az aw where A: "a = Quaternion ax ay az aw" by (cases a)
  obtain bx "by" bz bw where B: "b = Quaternion bx by bz bw" by (cases b)
  obtain x y z where V: "v = Vector3 x y z" by (cases v)
  have ua: "ax * ax + ay * ay + az * az + aw * aw = 1" using assms(1) by (simp add: unitQ_def A)
  have ub: "bx * bx + by * by + bz * bz + bw * bw = 1" using assms(2) by (simp add: unitQ_def B)
  show ?thesis
    unfolding A B V applyQuaternion_def multiply_def Let_def quat.sel vec3.sel vec3.inject
    using ua ub by algebra
qed

lemma unitV_vlength: "unitV v \<longleftrightarrow> vlength v = 1"
  by (simp add: unitV_def vlength_def)

lemma applyQuaternion_unit:
  assumes "unitQ q" and "unitV v"
  shows "unitV (applyQuaternion v q)"
proof -
  obtain a b c w where Q: "q = Quaternion a b c w" by (cases q)
  obtain x y z where V: "v = Vector3 x y z" by (cases v)
  have uq: "a * a + b * b + c * c + w * w = 1" using assms(1) by (simp add: unitQ_def Q)
  have uv: "x * x + y * y + z * z = 1" using assms(2) by (simp add: unitV_def V)
  show ?thesis
    unfolding Q V applyQuaternion_def Let_def unitV_def quat.sel vec3.sel
    using uq uv by algebra
qed

lemma qnormalize_scaled:
  assumes "0 < s" and "qx p * qx p + qy p * qy p + qz p * qz p + qw p * qw p = s"
  shows "qnormalize p = Quaternion (qx p / sqrt s) (qy p / sqrt s) (qz p / sqrt s) (qw p / sqrt s)"
    and "unitQ (qnormalize p)"
proof -
  have l: "qlength p = sqrt s" using assms(2) by (simp add: qlength_def)
  have nz: "sqrt s \<noteq> 0" using assms(1) by simp
  show e: "qnormalize p = Quaternion (qx p / sqrt s) (qy p / sqrt s) (qz p / sqrt s) (qw p / sqrt s)"
    using nz by (simp add: qnormalize_def l Let_def)
  have ss: "sqrt s * sqrt s = s" using assms(1) by simp
  have "qx p / sqrt s * (qx p / sqrt s) + qy p / sqrt s * (qy p / sqrt s)
      + qz p / sqrt s * (qz p / sqrt s) + qw p / sqrt s * (qw p / sqrt s)
      = (qx p * qx p + qy p * qy p + qz p * qz p + qw p * qw p) / (sqrt s * sqrt s)"
    by (simp add: add_divide_distrib)
  also have "\<dots> = 1" using assms ss by simp
  finally show "unitQ (qnormalize p)" by (simp add: e unitQ_def)
qed

lemma setFromUnitVectors_regular:
  assumes u: "unitV u" and r: "EPSILON \<le> dot u zWorld + 1"
  shows "applyQuaternion u (setFromUnitVectors u zWorld) = zWorld"
    and "unitQ (setFromUnitVectors u zWorld)"
proof -
  obtain x y z where U: "u = Vector3 x y z" by (cases u)
  have uv: "x * x + y * y + z * z = 1" using u by (simp add: unitV_def U)
  have e: "0 < EPSILON" by (simp add: EPSILON_def)
  have rz: "0 < z + 1" using r e by (simp add: U dot_def zWorld_def)
  define p where "p = Quaternion y (- x) 0 (z + 1)"
  define s where "s = 2 * (z + 1)"
  have s: "0 < s" using rz by (simp add: s_def)
  have n: "qx p * qx p + qy p * qy p + qz p * qz p + qw p * qw p = s"
    using uv unfolding p_def s_def quat.sel by algebra
  have sf: "setFromUnitVectors (Vector3 x y z) zWorld = qnormalize p"
    using r by (simp add: setFromUnitVectors_def U zWorld_def dot_def p_def Let_def)
  show "unitQ (setFromUnitVectors u zWorld)"
    unfolding U sf by (rule qnormalize_scaled(2) [OF s n])
  define k where "k = 1 / sqrt s"
  have kk: "k * k * (2 * (z + 1)) = 1"
  proof -
    have "sqrt s * sqrt s = s" using s by simp
    then have "k * k = 1 / s" by (simp add: k_def)
    then show ?thesis using s by (simp add: s_def)
  qed
  have q: "qnormalize p = Quaternion (y * k) (- x * k) 0 ((z + 1) * k)"
    by (subst qnormalize_scaled(1) [OF s n]) (simp add: p_def k_def)
  have ap: "applyQuaternion u (setFromUnitVectors u zWorld)
          = applyQuaternion (Vector3 x y z) (Quaternion (y * k) (- x * k) 0 ((z + 1) * k))"
    by (simp only: U sf q)
  show "applyQuaternion u (setFromUnitVectors u zWorld) = zWorld"
    unfolding ap unfolding applyQuaternion_def Let_def zWorld_def quat.sel vec3.sel vec3.inject
    using uv kk by algebra
qed

lemma setFromUnitVectors_opposite:
  assumes u: "unitV u" and r: "dot u zWorld + 1 < EPSILON"
  shows "applyQuaternion u (setFromUnitVectors u zWorld) = Vector3 (- vx u) (- vy u) (- vz u)"
    and "unitQ (setFromUnitVectors u zWorld)"
proof -
  obtain x y z where U: "u = Vector3 x y z" by (cases u)
  have uv: "x * x + y * y + z * z = 1" using u by (simp add: unitV_def U)
  have rz: "z + 1 < EPSILON" using r by (simp add: U dot_def zWorld_def)
  have zneg: "z < - (3 / 4)" using rz by (simp add: EPSILON_def)
  have zz: "9 / 16 < z * z"
  proof -
    have "(3 / 4) * (3 / 4) < (- z) * (- z)"
      using zneg by (intro mult_strict_mono) simp_all
    then show ?thesis by simp
  qed
  have xx: "x * x < 7 / 16"
  proof -
    have "0 \<le> y * y" by simp
    then show ?thesis using uv zz by linarith
  qed
  have nb: "\<not> \<bar>z\<bar> < \<bar>x\<bar>"
  proof
    assume "\<bar>z\<bar> < \<bar>x\<bar>"
    then have "\<bar>z\<bar> * \<bar>z\<bar> < \<bar>x\<bar> * \<bar>x\<bar>" by (intro mult_strict_mono) simp_all
    then have "z * z < x * x" by (simp add: abs_mult_self_eq)
    then show False using zz xx by linarith
  qed
  define p where "p = Quaternion 0 (- z) y 0"
  define s where "s = z * z + y * y"
  have s: "0 < s"
  proof -
    have "0 \<le> y * y" by simp
    then show ?thesis unfolding s_def using zz by linarith
  qed
  have n: "qx p * qx p + qy p * qy p + qz p * qz p + qw p * qw p = s"
    by (simp add: p_def s_def)
  have sf: "setFromUnitVectors (Vector3 x y z) zWorld = qnormalize p"
    using r nb by (simp add: setFromUnitVectors_def U zWorld_def dot_def p_def Let_def)
  show "unitQ (setFromUnitVectors u zWorld)"
    unfolding U sf by (rule qnormalize_scaled(2) [OF s n])
  define k where "k = 1 / sqrt s"
  have kk: "k * k * (z * z + y * y) = 1"
  proof -
    have "sqrt s * sqrt s = s" using s by simp
    then have "k * k = 1 / s" by (simp add: k_def)
    then have "k * k * s = 1" using s by simp
    then show ?thesis by (simp only: s_def)
  qed
  have q: "qnormalize p = Quaternion 0 (- z * k) (y * k) 0"
    by (subst qnormalize_scaled(1) [OF s n]) (simp add: p_def k_def)
  have ap: "applyQuaternion u (setFromUnitVectors u zWorld)
          = applyQuaternion (Vector3 x y z) (Quaternion 0 (- z * k) (y * k) 0)"
    by (simp only: U sf q)
  show "applyQuaternion u (setFromUnitVectors u zWorld) = Vector3 (- vx u) (- vy u) (- vz u)"
    unfolding ap unfolding U applyQuaternion_def Let_def quat.sel vec3.sel vec3.inject
    using kk by algebra
qed

lemma frames_running:
  assumes "anim st = Some a" and "\<forall>t \<in> set ts. (t - startTime a) / dur a < 1"
  shows "anim (frames ts st) = Some a \<and> seedDirs (frames ts st) = seedDirs st
       \<and> seeds (frames ts st) = seeds st \<and> count (frames ts st) = count st
       \<and> resultText (frames ts st) = resultText st"
  using assms
proof (induction ts arbitrary: st)
  case Nil
  then show ?case by simp
next
  case (Cons t ts)
  have lt: "(t - startTime a) / dur a < 1" using Cons.prems(2) by simp
  have r: "render t st =
    st\<lparr>rotQ := slerp (startQ a) (endQ a) (1 - (1 - min 1 ((t - startTime a) / dur a)) ^ 3),
        rot := rotationMatrix (slerp (startQ a) (endQ a) (1 - (1 - min 1 ((t - startTime a) / dur a)) ^ 3)),
        anim := Some a\<rparr>"
    using lt by (simp add: render_some [OF Cons.prems(1)])
  have a': "anim (render t st) = Some a" by (subst r) simp
  have rest: "\<forall>t \<in> set ts. (t - startTime a) / dur a < 1" using Cons.prems(2) by simp
  have f: "seedDirs (render t st) = seedDirs st" "seeds (render t st) = seeds st"
    "count (render t st) = count st" "resultText (render t st) = resultText st"
    by (subst r, simp)+
  from Cons.IH [OF a' rest] show ?case by (simp add: f)
qed

lemma render_final:
  assumes "anim st = Some a" and "1 \<le> (t - startTime a) / dur a"
  shows "render t st = st\<lparr>rotQ := endQ a, rot := rotationMatrix (endQ a), anim := None\<rparr>"
proof -
  have m: "min 1 ((t - startTime a) / dur a) = 1" using assms(2) by simp
  have s: "slerp (startQ a) (endQ a) 1 = endQ a" by (simp add: slerp_def)
  show ?thesis
    using assms(2) by (simp add: render_some [OF assms(1)] m s)
qed

lemma endQ_faces_viewer:
  assumes q: "unitQ q" and d: "unitV d"
  defines "u \<equiv> normalizeV (applyQuaternion d q)"
  defines "e \<equiv> multiply (setFromUnitVectors u zWorld) q"
  shows "unitQ e"
    and "EPSILON \<le> dot u zWorld + 1 \<Longrightarrow> applyQuaternion d e = zWorld"
    and "sqDist (applyQuaternion d e) zWorld < 2 * EPSILON"
proof -
  have u0: "unitV (applyQuaternion d q)" using q d by (rule applyQuaternion_unit)
  then have u: "u = applyQuaternion d q" by (simp add: u_def normalize_unit unitV_vlength)
  have uu: "unitV u" using u0 u by simp
  have dq: "unitQ (setFromUnitVectors u zWorld)"
    using setFromUnitVectors_regular(2) [OF uu] setFromUnitVectors_opposite(2) [OF uu]
    by (cases "EPSILON \<le> dot u zWorld + 1") simp_all
  show "unitQ e" unfolding e_def using dq q by (rule unitQ_multiply)
  have "applyQuaternion d e = applyQuaternion (applyQuaternion d q) (setFromUnitVectors u zWorld)"
    unfolding e_def by (rule applyQuaternion_multiply [OF dq q])
  then have ap: "applyQuaternion d e = applyQuaternion u (setFromUnitVectors u zWorld)"
    by (simp only: u [symmetric])
  show reg: "applyQuaternion d e = zWorld" if "EPSILON \<le> dot u zWorld + 1"
    using that by (simp add: ap setFromUnitVectors_regular(1) [OF uu])
  show "sqDist (applyQuaternion d e) zWorld < 2 * EPSILON"
  proof (cases "EPSILON \<le> dot u zWorld + 1")
    case True
    then show ?thesis by (simp add: reg sqDist_def EPSILON_def)
  next
    case False
    then have lt: "dot u zWorld + 1 < EPSILON" by simp
    obtain x y z where U: "u = Vector3 x y z" by (cases u)
    have uv: "x * x + y * y + z * z = 1" using uu by (simp add: unitV_def U)
    have zz: "z + 1 < EPSILON" using lt by (simp add: U dot_def zWorld_def)
    have "applyQuaternion d e = Vector3 (- vx u) (- vy u) (- vz u)"
      unfolding ap by (rule setFromUnitVectors_opposite(1) [OF uu lt])
    then have "applyQuaternion d e = Vector3 (- x) (- y) (- z)"
      by (simp add: U)
    then have "sqDist (applyQuaternion d e) zWorld = x * x + y * y + (- z - 1) * (- z - 1)"
      by (simp add: sqDist_def zWorld_def)
    also have "\<dots> = (x * x + y * y + z * z) + 2 * z + 1" by (simp add: algebra_simps)
    also have "\<dots> = 2 * (z + 1)" using uv by simp
    finally show ?thesis using zz by simp
  qed
qed

lemma roll_completes_general:
  assumes sd: "seedDirs st = Some dirs" and ne: "dirs \<noteq> []"
    and uq: "unitQ (rotQ st)" and ud: "\<forall>d \<in> set dirs. vlength d = 1"
    and during: "\<forall>t \<in> set ts. t < tRoll + DURATION_MS"
    and finished: "tRoll + DURATION_MS \<le> tEnd"
  shows "let k = nat (wrapIndex idx (int (length dirs)));
             nWorld = normalizeV (applyQuaternion (dirs ! k) (rotQ st));
             e = multiply (setFromUnitVectors nWorld zWorld) (rotQ st);
             st' = render tEnd (frames ts (rollTo idx tRoll st))
         in anim st' = None \<and> rotQ st' = e \<and> rot st' = rotationMatrix e \<and> unitQ e
            \<and> sqDist (applyQuaternion (dirs ! k) (rotQ st')) zWorld < 2 * EPSILON
            \<and> sqDist (mulMV (rot st') (dirs ! k)) zWorld < 2 * EPSILON
            \<and> (EPSILON \<le> dot nWorld zWorld + 1 \<longrightarrow> applyQuaternion (dirs ! k) (rotQ st') = zWorld)
            \<and> render tLater st' = st'"
proof -
  define k where "k = nat (wrapIndex idx (int (length dirs)))"
  define nWorld where "nWorld = normalizeV (applyQuaternion (dirs ! k) (rotQ st))"
  define e where "e = multiply (setFromUnitVectors nWorld zWorld) (rotQ st)"
  define a where "a = \<lparr>startQ = rotQ st, endQ = e, startTime = tRoll, dur = DURATION_MS\<rparr>"
  define st1 where "st1 = rollTo idx tRoll st"
  define st2 where "st2 = frames ts st1"
  define st' where "st' = render tEnd st2"
  have len: "0 < int (length dirs)" using ne by simp
  have kl: "k < length dirs"
    unfolding k_def using wrapIndex_bounds [OF len, of idx] by linarith
  have dk: "unitV (dirs ! k)" using ud kl by (simp add: unitV_vlength)
  have a1: "anim st1 = Some a"
    by (simp add: st1_def rollTo_some [OF sd ne] a_def e_def nWorld_def k_def)
  have run: "\<forall>t \<in> set ts. (t - startTime a) / dur a < 1"
    using during by (auto simp: a_def DURATION_MS_def)
  have a2: "anim st2 = Some a"
    unfolding st2_def using frames_running [OF a1 run] by simp
  have fin: "1 \<le> (tEnd - startTime a) / dur a"
    using finished by (simp add: a_def DURATION_MS_def)
  have r: "st' = st2\<lparr>rotQ := e, rot := rotationMatrix e, anim := None\<rparr>"
    unfolding st'_def by (simp add: render_final [OF a2 fin] a_def)
  have f1: "anim st' = None" "rotQ st' = e" "rot st' = rotationMatrix e"
    by (simp_all add: r)
  note ef = endQ_faces_viewer [OF uq dk]
  have ue: "unitQ e" unfolding e_def nWorld_def by (rule ef(1))
  have near: "sqDist (applyQuaternion (dirs ! k) e) zWorld < 2 * EPSILON"
    unfolding e_def nWorld_def by (rule ef(3))
  have exact: "EPSILON \<le> dot nWorld zWorld + 1 \<longrightarrow> applyQuaternion (dirs ! k) e = zWorld"
    unfolding e_def nWorld_def using ef(2) by blast
  have idle: "render tLater st' = st'" using f1(1) by (rule render_idle)
  have "anim st' = None \<and> rotQ st' = e \<and> rot st' = rotationMatrix e \<and> unitQ e
            \<and> sqDist (applyQuaternion (dirs ! k) (rotQ st')) zWorld < 2 * EPSILON
            \<and> sqDist (mulMV (rot st') (dirs ! k)) zWorld < 2 * EPSILON
            \<and> (EPSILON \<le> dot nWorld zWorld + 1 \<longrightarrow> applyQuaternion (dirs ! k) (rotQ st') = zWorld)
            \<and> render tLater st' = st'"
    using f1 ue near exact idle by (simp add: mulMV_rotationMatrix)
  then show ?thesis
    unfolding Let_def k_def [symmetric] nWorld_def [symmetric] e_def [symmetric]
      st1_def [symmetric] st2_def [symmetric] st'_def [symmetric] .
qed

section \<open>The intersector\<close>

declare polyLoop.simps [simp del]

lemma normalizeGL_unit: "vlength v = 1 \<Longrightarrow> normalizeGL v = v"
  by (cases v) (simp add: normalizeGL_def)

lemma polyLoop_slabClip:
  assumes "nat (count u) \<le> m" and "i \<le> nat (count u)"
  shows "polyLoop m u ro rd i tn tf (idxOf en)
       = toLoop (specSlabClip (1 / 1000000) (offset u) ro rd (\<lambda>j. mulMV (rot u) (seeds u ! j))
                   [i..<nat (count u)] tn (Finite tf) en)"
  using assms(2)
proof (induction "nat (count u) - i" arbitrary: i tn tf en)
  case 0
  then have i: "i = nat (count u)" by simp
  then have "int i \<ge> count u" by simp
  then show ?case
    by (subst polyLoop.simps) (simp add: i)
next
  case (Suc k)
  then have lt: "i < nat (count u)" by simp
  then have im: "i < m" and nb: "\<not> int i \<ge> count u" using assms(1) by simp_all
  have k: "k = nat (count u) - Suc i" using Suc.hyps(2) by simp
  have le: "Suc i \<le> nat (count u)" using lt by simp
  note IH = Suc.hyps(1) [OF k le]
  have up: "[i..<nat (count u)] = i # [Suc i..<nat (count u)]"
    using lt by (simp add: upt_conv_Cons)
  have some: "idxOf (Some i) = int i" by simp
  show ?case
    apply (subst polyLoop.simps)
    apply (simp only: up specSlabClip.simps)
    apply (simp add: im nb Let_def IH IH [where en = "Some i", unfolded some] del: idxOf.simps)
    done
qed

lemma specSlabClip_finite:
  "specSlabClip eps d ro rd nrm faces tn (Finite tf) en = Some (a, b, c) \<Longrightarrow> \<exists>f. b = Finite f"
proof (induction faces arbitrary: tn tf en)
  case Nil
  then show ?case by auto
next
  case (Cons i faces)
  then show ?case
    by (auto simp: Let_def split: if_splits)
qed

lemma specSlabClip_enter:
  "specSlabClip eps d ro rd nrm faces tn tf en = Some (a, b, Some e) \<Longrightarrow> e \<in> set faces \<or> en = Some e"
proof (induction faces arbitrary: tn tf en)
  case Nil
  then show ?case by simp
next
  case (Cons i faces)
  then show ?case
    by (fastforce simp: Let_def split: if_splits)
qed

lemma intersectPoly_eq:
  assumes "count u \<le> int m"
  shows "intersectPoly m u ro rd =
    (case specIntersect (1 / 1000000) (Finite 1000000000) (offset u) ro rd
            (\<lambda>i. mulMV (rot u) (seeds u ! i)) (nat (count u)) of
       None \<Rightarrow> noHit
     | Some (d, p, e, n) \<Rightarrow> Hit True d (int e) (normalizeGL n) p)"
proof -
  let ?nrm = "\<lambda>i. mulMV (rot u) (seeds u ! i)"
  let ?r = "specSlabClip (1 / 1000000) (offset u) ro rd ?nrm [0..<nat (count u)] 0 (Finite 1000000000) None"
  have c: "nat (count u) \<le> m" using assms by simp
  have loop: "polyLoop m u ro rd 0 0 1000000000 (- 1) = toLoop ?r"
    using polyLoop_slabClip [OF c, of 0 ro rd 0 1000000000 None] by simp
  show ?thesis
  proof (cases ?r)
    case None
    then show ?thesis
      by (simp add: intersectPoly_def loop specIntersect_def)
  next
    case (Some res)
    obtain tn tfe en where res: "res = (tn, tfe, en)" by (cases res)
    from specSlabClip_finite [OF Some [unfolded res]] obtain tf where tfe: "tfe = Finite tf" by blast
    show ?thesis
      by (cases en) (simp_all add: intersectPoly_def loop specIntersect_def Some res tfe Let_def)
  qed
qed

text \<open>
  C1 (as amended). For every ray origin and direction and every state whose active face count
  is within the capacity of the uniform array, the intersector computes what the specified
  slab-clipping algorithm computes when that algorithm starts from \<open>tNear = 0\<close>, \<open>tFar = 1e9\<close> (a
  finite stand-in for infinity), \<open>enterFace = none\<close>, with epsilon \<open>1e-6\<close>: per active face
  \<open>denom = dot(n_i, rayDir)\<close>, \<open>num = offset - dot(n_i, rayOrigin)\<close>; no hit for a parallel face
  with \<open>num < 0\<close>, which is skipped otherwise; else \<open>t = num/denom\<close> updates \<open>tNear\<close> and
  \<open>enterFace\<close> when \<open>denom < 0\<close> and \<open>t > tNear\<close>, and \<open>tFar\<close> when \<open>denom > 0\<close> and \<open>t < tFar\<close>; no
  hit as soon as \<open>tNear > tFar\<close>; after all faces no hit exactly when \<open>enterFace\<close> is unset or
  \<open>tFar < 0\<close>, and otherwise hit distance \<open>max(tNear, 0)\<close>, hit point
  \<open>origin + direction * hitDistance\<close> and the normalized normal of the entering face, which is
  that normal itself when the active normals have length 1.
\<close>

theorem intersectPoly_slab_clipping:
  assumes "length (seeds u) = m" and "count u \<le> int m"
  shows "intersectPoly m u ro rd =
          (case specIntersect (1 / 1000000) (Finite 1000000000) (offset u) ro rd
                  (\<lambda>i. mulMV (rot u) (seeds u ! i)) (nat (count u)) of
             None \<Rightarrow> noHit
           | Some (d, p, e, n) \<Rightarrow> Hit True d (int e) (normalizeGL n) p)
       \<and> ((\<forall>i < nat (count u). vlength (mulMV (rot u) (seeds u ! i)) = 1) \<longrightarrow>
          intersectPoly m u ro rd =
            (case specIntersect (1 / 1000000) (Finite 1000000000) (offset u) ro rd
                    (\<lambda>i. mulMV (rot u) (seeds u ! i)) (nat (count u)) of
               None \<Rightarrow> noHit
             | Some (d, p, e, n) \<Rightarrow> Hit True d (int e) n p))"
proof -
  let ?nrm = "\<lambda>i. mulMV (rot u) (seeds u ! i)"
  let ?s = "specIntersect (1 / 1000000) (Finite 1000000000) (offset u) ro rd ?nrm (nat (count u))"
  have eq: "intersectPoly m u ro rd =
      (case ?s of None \<Rightarrow> noHit | Some (d, p, e, n) \<Rightarrow> Hit True d (int e) (normalizeGL n) p)"
    using assms(2) by (rule intersectPoly_eq)
  have "(case ?s of None \<Rightarrow> noHit | Some (d, p, e, n) \<Rightarrow> Hit True d (int e) (normalizeGL n) p)
      = (case ?s of None \<Rightarrow> noHit | Some (d, p, e, n) \<Rightarrow> Hit True d (int e) n p)"
    if un: "\<forall>i < nat (count u). vlength (mulMV (rot u) (seeds u ! i)) = 1"
  proof (cases ?s)
    case None
    then show ?thesis by simp
  next
    case (Some res)
    obtain d p e n where res: "res = (d, p, e, n)" by (cases res)
    from Some res obtain tn tf where
      cl: "specSlabClip (1 / 1000000) (offset u) ro rd ?nrm [0..<nat (count u)] 0 (Finite 1000000000) None
            = Some (tn, tf, Some e)" and n: "n = ?nrm e"
      by (auto simp: specIntersect_def split: option.splits if_splits)
    from specSlabClip_enter [OF cl] have "e < nat (count u)" by simp
    then have "vlength n = 1" using un n by simp
    then show ?thesis by (simp add: Some res normalizeGL_unit)
  qed
  with eq show ?thesis by simp
qed

lemma boot_3: "boot 3 txt = Inr (booted3 txt)"
proof -
  have a: "length (seeds (initState MAX_SEEDS txt)) = MAX_SEEDS" "3 \<le> MAX_SEEDS"
    by (simp_all add: initState_def MAX_SEEDS_def)
  have t: "toInt32 3 = 3" by (simp add: toInt32_def)
  have r: "rotationMatrix (Quaternion 0 0 0 1) = Matrix3 (Vector3 1 0 0) (Vector3 0 1 0) (Vector3 0 0 1)"
    by (simp add: rotationMatrix_def)
  show ?thesis
    unfolding boot_def setSeeds_eq [OF a]
    by (simp add: t MAX_SEEDS_def booted3_def initState_def r)
qed

lemma booted3_fields:
  "count (booted3 txt) = 3" "offset (booted3 txt) = 9 / 10"
  "length (seeds (booted3 txt)) = MAX_SEEDS"
  by (simp_all add: booted3_def initState_def POLY_OFFSET_def fibonacciSeeds_length MAX_SEEDS_def)

lemma booted3_normal:
  "i < 3 \<Longrightarrow> mulMV (rot (booted3 txt)) (seeds (booted3 txt) ! i) = seedAt 3 i"
proof -
  assume i: "i < 3"
  have "seeds (booted3 txt) ! i = fibonacciSeeds 3 ! i"
    using i by (simp add: booted3_def nth_append fibonacciSeeds_length)
  then have s: "seeds (booted3 txt) ! i = seedAt 3 i" using i by (simp add: fibonacciSeeds_nth)
  have "mulMV (rot (booted3 txt)) v = v" for v
    by (cases v) (simp add: booted3_def initState_def mulMV_def dot_def)
  then show ?thesis by (simp add: s)
qed

lemma seedAt_vy: "i < n \<Longrightarrow> vy (seedAt n i) = 1 - 2 * ((real i + 1 / 2) / real n)"
  by (subst seedAt_raw(1)) simp_all

lemma dot_y: "dot v (Vector3 0 b 0) = vy v * b"
  by (simp add: dot_def)

lemma seed3_dots:
  "dot (seedAt 3 0) (Vector3 0 b 0) = 2 / 3 * b"
  "dot (seedAt 3 1) (Vector3 0 b 0) = 0"
  "dot (seedAt 3 (Suc 0)) (Vector3 0 b 0) = 0"
  "dot (seedAt 3 2) (Vector3 0 b 0) = - (2 / 3) * b"
  by (simp_all add: dot_y seedAt_vy)

lemma upt3: "[0..<3] = [0, 1, 2]"
  by (simp add: upt_rec numeral_3_eq_3)

theorem intersectPoly_slab_clipping_witness:
  "(case boot 3 [] of
      Inl e \<Rightarrow> False
    | Inr u \<Rightarrow> intersectPoly MAX_SEEDS u (Vector3 0 3 0) (Vector3 0 (- 1) 0)
               = Hit True (33 / 20) 0 (seeds u ! 0) (Vector3 0 (27 / 20) 0))"
proof -
  let ?u = "booted3 []"
  have a: "length (seeds ?u) = MAX_SEEDS" by (rule booted3_fields)
  have b: "count ?u \<le> int MAX_SEEDS" by (simp add: booted3_fields MAX_SEEDS_def)
  have un: "\<forall>i < nat (count ?u). vlength (mulMV (rot ?u) (seeds ?u ! i)) = 1"
    by (simp add: booted3_fields booted3_normal seedAt_raw(2))
  have s0: "seeds ?u ! 0 = seedAt 3 0"
    by (simp add: booted3_def nth_append fibonacciSeeds_length fibonacciSeeds_nth)
  have sl: "specIntersect (1 / 1000000) (Finite 1000000000) (offset ?u) (Vector3 0 3 0) (Vector3 0 (- 1) 0)
              (\<lambda>i. mulMV (rot ?u) (seeds ?u ! i)) (nat (count ?u))
          = Some (33 / 20, Vector3 0 (27 / 20) 0, 0, seedAt 3 0)"
    by (simp add: specIntersect_def booted3_fields upt3 Let_def booted3_normal seed3_dots
        add_v_def multiplyScalar_def)
  from intersectPoly_slab_clipping [OF a b, of "Vector3 0 3 0" "Vector3 0 (- 1) 0"] un
  have "intersectPoly MAX_SEEDS ?u (Vector3 0 3 0) (Vector3 0 (- 1) 0)
        = (case specIntersect (1 / 1000000) (Finite 1000000000) (offset ?u) (Vector3 0 3 0)
                  (Vector3 0 (- 1) 0) (\<lambda>i. mulMV (rot ?u) (seeds ?u ! i)) (nat (count ?u)) of
             None \<Rightarrow> noHit
           | Some (d, p, e, n) \<Rightarrow> Hit True d (int e) n p)"
    by blast
  then have "intersectPoly MAX_SEEDS ?u (Vector3 0 3 0) (Vector3 0 (- 1) 0)
        = Hit True (33 / 20) 0 (seedAt 3 0) (Vector3 0 (27 / 20) 0)"
    by (simp add: sl)
  then show ?thesis by (simp add: boot_3 s0)
qed

text \<open>
  With \<open>tFar = +infinity\<close>, as the claim states the algorithm, the two differ: for three faces
  and a ray starting 3e9 above the solid and pointing down at it, the algorithm of the
  specification reports a hit on face 0 and the shader reports none.
\<close>

theorem intersectPoly_far_ray_counterexample:
  "(case boot 3 [] of
      Inl e \<Rightarrow> False
    | Inr u \<Rightarrow>
        intersectPoly MAX_SEEDS u (Vector3 0 3000000000 0) (Vector3 0 (- 1) 0) = noHit
      \<and> specIntersect (1 / 1000000) Infinity (offset u) (Vector3 0 3000000000 0) (Vector3 0 (- 1) 0)
           (\<lambda>i. mulMV (rot u) (seeds u ! i)) (nat (count u))
         = Some (3000000000 - 27 / 20, Vector3 0 (27 / 20) 0, 0, seeds u ! 0))"
proof -
  let ?u = "booted3 []"
  have b: "count ?u \<le> int MAX_SEEDS" by (simp add: booted3_fields MAX_SEEDS_def)
  have s0: "seeds ?u ! 0 = seedAt 3 0"
    by (simp add: booted3_def nth_append fibonacciSeeds_length fibonacciSeeds_nth)
  have code: "specIntersect (1 / 1000000) (Finite 1000000000) (offset ?u) (Vector3 0 3000000000 0)
              (Vector3 0 (- 1) 0) (\<lambda>i. mulMV (rot ?u) (seeds ?u ! i)) (nat (count ?u)) = None"
    by (simp add: specIntersect_def booted3_fields upt3 Let_def booted3_normal seed3_dots)
  have 1: "intersectPoly MAX_SEEDS ?u (Vector3 0 3000000000 0) (Vector3 0 (- 1) 0) = noHit"
    by (simp add: intersectPoly_eq [OF b] code)
  have 2: "specIntersect (1 / 1000000) Infinity (offset ?u) (Vector3 0 3000000000 0) (Vector3 0 (- 1) 0)
              (\<lambda>i. mulMV (rot ?u) (seeds ?u ! i)) (nat (count ?u))
          = Some (3000000000 - 27 / 20, Vector3 0 (27 / 20) 0, 0, seedAt 3 0)"
    by (simp add: specIntersect_def booted3_fields upt3 Let_def booted3_normal seed3_dots
        add_v_def multiplyScalar_def)
  from 1 2 show ?thesis by (simp add: boot_3 s0)
qed

lemma dot_unit_le: "vlength a = 1 \<Longrightarrow> vlength b = 1 \<Longrightarrow> dot a b \<le> 1"
proof -
  assume a: "vlength a = 1" and b: "vlength b = 1"
  have ua: "vx a * vx a + vy a * vy a + vz a * vz a = 1" using a by (simp add: vlength_def)
  have ub: "vx b * vx b + vy b * vy b + vz b * vz b = 1" using b by (simp add: vlength_def)
  have "0 \<le> sqDist a b"
    unfolding sqDist_def by (intro add_nonneg_nonneg) simp_all
  also have "sqDist a b = (vx a * vx a + vy a * vy a + vz a * vz a)
      + (vx b * vx b + vy b * vy b + vz b * vz b) - 2 * dot a b"
    by (simp add: sqDist_def dot_def algebra_simps)
  finally show ?thesis using ua ub by simp
qed

lemma dot_unit_self: "vlength a = 1 \<Longrightarrow> dot a a = 1"
  by (simp add: vlength_def dot_def)

lemma dot_origin: "dot n (Vector3 0 0 0) = 0"
  by (simp add: dot_def)

lemma polyLoop_from_origin:
  assumes c: "nat (count u) \<le> m" and k: "k < nat (count u)"
    and un: "\<forall>i < nat (count u). vlength (mulMV (rot u) (seeds u ! i)) = 1"
    and d: "0 < offset u"
    and i: "i \<le> nat (count u)" and tf: "offset u \<le> tf" and seen: "tf = offset u \<or> i \<le> k"
  shows "polyLoop m u (Vector3 0 0 0) (mulMV (rot u) (seeds u ! k)) i 0 tf (- 1)
       = Inr (0, offset u, - 1)"
  using i tf seen
proof (induction "nat (count u) - i" arbitrary: i tf)
  case 0
  then have i: "i = nat (count u)" by simp
  then have ge: "int i \<ge> count u" by simp
  have "tf = offset u" using "0.prems"(3) i k by simp
  then show ?case using ge by (subst polyLoop.simps) simp
next
  case (Suc j)
  let ?rd = "mulMV (rot u) (seeds u ! k)"
  let ?n = "mulMV (rot u) (seeds u ! i)"
  from Suc have lt: "i < nat (count u)" by simp
  then have im: "i < m" and nb: "\<not> int i \<ge> count u" using c by simp_all
  have j: "j = nat (count u) - Suc i" using Suc.hyps(2) by simp
  have le: "Suc i \<le> nat (count u)" using lt by simp
  have uk: "vlength ?rd = 1" using un k by simp
  have ui: "vlength ?n = 1" using un lt by simp
  have le1: "dot ?n ?rd \<le> 1" using ui uk by (rule dot_unit_le)
  have tfpos: "0 < tf" using d Suc.prems(2) by simp
  show ?case
  proof (cases "\<bar>dot ?n ?rd\<bar> < 1 / 1000000")
    case True
    then have "i \<noteq> k" using dot_unit_self [OF uk] by auto
    then have seen': "tf = offset u \<or> Suc i \<le> k" using Suc.prems(3) by auto
    have "polyLoop m u (Vector3 0 0 0) ?rd i 0 tf (- 1) = polyLoop m u (Vector3 0 0 0) ?rd (Suc i) 0 tf (- 1)"
      using True d by (subst polyLoop.simps) (simp add: im nb Let_def dot_origin)
    then show ?thesis using Suc.hyps(1) [OF j le Suc.prems(2) seen'] by simp
  next
    case False
    show ?thesis
    proof (cases "dot ?n ?rd < 0")
      case True
      then have "i \<noteq> k" using dot_unit_self [OF uk] by auto
      then have seen': "tf = offset u \<or> Suc i \<le> k" using Suc.prems(3) by auto
      have neg: "\<not> 0 < offset u / dot ?n ?rd"
        using True d by (simp add: divide_less_0_iff not_less divide_nonneg_neg zero_less_divide_iff)
      have "polyLoop m u (Vector3 0 0 0) ?rd i 0 tf (- 1) = polyLoop m u (Vector3 0 0 0) ?rd (Suc i) 0 tf (- 1)"
        using False True neg tfpos by (subst polyLoop.simps) (simp add: im nb Let_def dot_origin)
      then show ?thesis using Suc.hyps(1) [OF j le Suc.prems(2) seen'] by simp
    next
      case nonneg: False
      with False have pos: "0 < dot ?n ?rd" by simp
      define t where "t = offset u / dot ?n ?rd"
      have tge: "offset u \<le> t"
      proof -
        have "offset u * dot ?n ?rd \<le> offset u * 1"
          using le1 d by (intro mult_left_mono) simp_all
        then show ?thesis using pos by (simp add: t_def pos_le_divide_eq)
      qed
      define tf' where "tf' = (if t < tf then t else tf)"
      have tf'ge: "offset u \<le> tf'" using tge Suc.prems(2) by (simp add: tf'_def)
      have tf'pos: "\<not> 0 > tf'" using tf'ge d by simp
      have seen': "tf' = offset u \<or> Suc i \<le> k"
      proof (cases "i = k")
        case True
        then have "t = offset u" by (simp add: t_def dot_unit_self [OF uk])
        then show ?thesis using Suc.prems(2) by (auto simp: tf'_def)
      next
        case ik: False
        show ?thesis
        proof (cases "tf = offset u")
          case True
          then show ?thesis using tge by (simp add: tf'_def)
        next
          case False
          then show ?thesis using Suc.prems(3) ik by auto
        qed
      qed
      have "polyLoop m u (Vector3 0 0 0) ?rd i 0 tf (- 1) = polyLoop m u (Vector3 0 0 0) ?rd (Suc i) 0 tf' (- 1)"
        using False nonneg tf'pos tfpos
        by (subst polyLoop.simps) (auto simp: im nb Let_def dot_origin tf'_def t_def)
      then show ?thesis using Suc.hyps(1) [OF j le tf'ge seen'] by simp
    qed
  qed
qed

lemma origin_ray_general:
  assumes "length (seeds u) = m" and "count u \<le> int m" and "k < nat (count u)"
    and "\<forall>i < nat (count u). vlength (mulMV (rot u) (seeds u ! i)) = 1"
    and "0 < offset u" and "offset u \<le> 1000000000"
  shows "dot (mulMV (rot u) (seeds u ! k)) (mulMV (rot u) (seeds u ! k)) = 1
       \<and> (offset u - dot (mulMV (rot u) (seeds u ! k)) (Vector3 0 0 0))
           / dot (mulMV (rot u) (seeds u ! k)) (mulMV (rot u) (seeds u ! k)) = offset u
       \<and> polyLoop m u (Vector3 0 0 0) (mulMV (rot u) (seeds u ! k)) 0 0 1000000000 (- 1)
           = Inr (0, offset u, - 1)
       \<and> intersectPoly m u (Vector3 0 0 0) (mulMV (rot u) (seeds u ! k)) = noHit"
proof -
  let ?n = "mulMV (rot u) (seeds u ! k)"
  have c: "nat (count u) \<le> m" using assms(2) by simp
  have uk: "vlength ?n = 1" using assms(3,4) by simp
  have 1: "dot ?n ?n = 1" using uk by (rule dot_unit_self)
  have 2: "(offset u - dot ?n (Vector3 0 0 0)) / dot ?n ?n = offset u"
    by (simp add: 1 dot_origin)
  have 3: "polyLoop m u (Vector3 0 0 0) ?n 0 0 1000000000 (- 1) = Inr (0, offset u, - 1)"
    using c assms(3,4,5) _ assms(6) by (rule polyLoop_from_origin) simp_all
  have 4: "intersectPoly m u (Vector3 0 0 0) ?n = noHit"
    by (simp add: intersectPoly_def 3)
  from 1 2 3 4 show ?thesis by blast
qed

section \<open>The result readout\<close>

lemma tick_readout: "readout (tick now c st) = readout st" "timeouts (tick now c st) = timeouts st"
  "userSeedDirs (tick now c st) = userSeedDirs st"
  by (simp_all add: tick_def Let_def)

lemma animationFrame_readout:
  "readout (animationFrame now st) = readout st" "timeouts (animationFrame now st) = timeouts st"
  by (simp_all add: animationFrame_def tick_readout split: option.splits)

lemma fireTimeouts_early:
  "\<forall>p \<in> set (timeouts st). now < fst p \<Longrightarrow>
   readout (fireTimeouts now st) = readout st \<and> timeouts (fireTimeouts now st) = timeouts st"
proof -
  assume a: "\<forall>p \<in> set (timeouts st). now < fst p"
  have 1: "filter (\<lambda>(d, txt). d \<le> now) (timeouts st) = []"
    using a by (auto simp: filter_empty_conv)
  have 2: "filter (\<lambda>(d, txt). \<not> d \<le> now) (timeouts st) = timeouts st"
    using a by (auto simp: filter_id_conv)
  show ?thesis by (simp add: fireTimeouts_def Let_def 1 2)
qed

lemma runEvents_early:
  "\<forall>p \<in> set (timeouts st). \<forall>e \<in> set evs. eventTime e < fst p \<Longrightarrow>
   readout (runEvents evs st) = readout st \<and> timeouts (runEvents evs st) = timeouts st"
proof (induction evs arbitrary: st)
  case Nil
  then show ?case by simp
next
  case (Cons e evs)
  show ?case
  proof (cases e)
    case (Frame t)
    have "\<forall>p \<in> set (timeouts (animationFrame t st)). \<forall>e \<in> set evs. eventTime e < fst p"
      using Cons.prems by (simp add: animationFrame_readout)
    from Cons.IH [OF this] show ?thesis by (simp add: Frame animationFrame_readout)
  next
    case (Timers t)
    have early: "\<forall>p \<in> set (timeouts st). t < fst p" using Cons.prems Timers by auto
    note f = fireTimeouts_early [OF early]
    have "\<forall>p \<in> set (timeouts (fireTimeouts t st)). \<forall>e \<in> set evs. eventTime e < fst p"
      using Cons.prems f by simp
    from Cons.IH [OF this] show ?thesis by (simp add: Timers f)
  qed
qed

lemma rollToSphere_some:
  assumes "userSeedDirs st = Some dirs" and "dirs \<noteq> []"
  shows "readout (rollToSphere idx tStart tTick tSched st) = readout st"
    and "timeouts (rollToSphere idx tStart tTick tSched st)
         = timeouts st @ [(tSched + 900, resultString (wrapIndex idx (int (length dirs))) (int (length dirs)))]"
  using assms by (simp_all add: rollToSphere_def Let_def tick_readout DURATION_MS_sphere_def)

lemma render_readout: "resultText (render t st) = resultText st"
  by (cases "anim st") (simp_all add: render_idle render_some)

lemma frames_readout: "resultText (frames ts st) = resultText st"
  by (induction ts arbitrary: st) (simp_all add: render_readout)

text \<open>
  C5 (as amended). The readout "Result: k / dn", with \<open>k\<close> the 1-based target face index and
  \<open>n\<close> the number of seed directions, is published in the polyhedron variant by \<open>rollTo\<close> itself,
  when the roll starts, and no frame changes it afterwards. In the sphere variant \<open>rollTo\<close>
  leaves the readout as it is and so does every frame and every timer run before 0.9 of the
  duration has passed since the roll started (no timeout of an earlier roll pending); the
  timeout set by \<open>rollTo\<close> publishes it when it fires, at an elapsed fraction of at least 0.9.
\<close>

theorem readout_publication:
  assumes "seedDirs st = Some dirs" and "userSeedDirs sp = Some dirs" and "dirs \<noteq> []"
    and "timeouts sp = []" and "tStart \<le> tSched"
    and "\<forall>e \<in> set evs. eventTime e < tSched + 900" and "tSched + 900 \<le> tFire"
  shows "resultText (rollTo idx now st)
           = ''Result: '' @ numberToString (wrapIndex idx (int (length dirs)) + 1)
               @ '' / d'' @ numberToString (int (length dirs))
       \<and> resultText (frames ts (rollTo idx now st)) = resultText (rollTo idx now st)
       \<and> readout (runEvents evs (rollToSphere idx tStart tTick tSched sp)) = readout sp
       \<and> readout (fireTimeouts tFire (runEvents evs (rollToSphere idx tStart tTick tSched sp)))
           = ''Result: '' @ numberToString (wrapIndex idx (int (length dirs)) + 1)
               @ '' / d'' @ numberToString (int (length dirs))
       \<and> 9 / 10 \<le> (tFire - tStart) / DURATION_MS_sphere"
proof -
  let ?txt = "''Result: '' @ numberToString (wrapIndex idx (int (length dirs)) + 1)
               @ '' / d'' @ numberToString (int (length dirs))"
  let ?sp1 = "rollToSphere idx tStart tTick tSched sp"
  have rs: "resultString (wrapIndex idx (int (length dirs))) (int (length dirs)) = ?txt"
    by (simp add: resultString_def)
  have 1: "resultText (rollTo idx now st) = ?txt"
    by (simp add: rollTo_some [OF assms(1,3)] rs)
  have 2: "resultText (frames ts (rollTo idx now st)) = resultText (rollTo idx now st)"
    by (rule frames_readout)
  have r: "readout ?sp1 = readout sp" and t: "timeouts ?sp1 = [(tSched + 900, ?txt)]"
    using rollToSphere_some [OF assms(2,3), of idx tStart tTick tSched] assms(4)
    by (simp_all add: rs)
  have early: "\<forall>p \<in> set (timeouts ?sp1). \<forall>e \<in> set evs. eventTime e < fst p"
    using assms(6) by (simp add: t)
  note e = runEvents_early [OF early]
  have 3: "readout (runEvents evs ?sp1) = readout sp" using e r by simp
  have 4: "readout (fireTimeouts tFire (runEvents evs ?sp1)) = ?txt"
    using e t assms(7) by (simp add: fireTimeouts_def Let_def)
  have 5: "9 / 10 \<le> (tFire - tStart) / DURATION_MS_sphere"
    using assms(5,7) by (simp add: DURATION_MS_sphere_def)
  from 1 2 3 4 5 show ?thesis by blast
qed

theorem readout_publication_witness:
  "resultText (frames [100, 450] (rollTo 4 0 ((initState MAX_SEEDS ''-'')\<lparr>seedDirs := Some (fibonacciSeeds 3)\<rparr>)))
     = ''Result: 2 / d3''
   \<and> readout (runEvents [Frame 16, Timers 500, Frame 899]
        (rollToSphere 4 0 0 0 \<lparr>userSeedDirs = Some (fibonacciSeeds 3), quaternion = Quaternion 0 0 0 1,
                               rafTick = None, timeouts = [], readout = ''-''\<rparr>)) = ''-''
   \<and> readout (fireTimeouts 900 (runEvents [Frame 16, Timers 500, Frame 899]
        (rollToSphere 4 0 0 0 \<lparr>userSeedDirs = Some (fibonacciSeeds 3), quaternion = Quaternion 0 0 0 1,
                               rafTick = None, timeouts = [], readout = ''-''\<rparr>)))
     = ''Result: 2 / d3''"
proof -
  let ?st = "(initState MAX_SEEDS ''-'')\<lparr>seedDirs := Some (fibonacciSeeds 3)\<rparr>"
  let ?sp = "\<lparr>userSeedDirs = Some (fibonacciSeeds 3), quaternion = Quaternion 0 0 0 1,
              rafTick = None, timeouts = [], readout = ''-''\<rparr>"
  have a: "seedDirs ?st = Some (fibonacciSeeds 3)" by simp
  have b: "userSeedDirs ?sp = Some (fibonacciSeeds 3)" by simp
  have l: "length (fibonacciSeeds 3) = 3" by (rule fibonacciSeeds_length)
  have c: "fibonacciSeeds 3 \<noteq> []" using l by auto
  have d: "timeouts ?sp = []" by simp
  have e: "(0::real) \<le> 0" by simp
  have f: "\<forall>e \<in> set [Frame 16, Timers 500, Frame 899]. eventTime e < 0 + 900" by simp
  have g: "(0::real) + 900 \<le> 900" by simp
  have w: "wrapIndex 4 3 = 1" by (simp add: wrapIndex_eq toInt32_def)
  have dg: "digits 2 = ''2''" "digits 3 = ''3''" by (simp_all add: digits.simps)
  from readout_publication [OF a b c d e f g, where idx = 4 and now = 0 and ts = "[100, 450]" and tTick = 0]
  show ?thesis
    by (simp add: l w numberToString_def dg)
qed

text \<open>
  The claim as stated fails in the polyhedron variant: the readout is already published at
  elapsed fraction 0.
\<close>

theorem readout_at_roll_start_counterexample:
  "(case boot 3 ''-'' of
      Inl e \<Rightarrow> False
    | Inr st \<Rightarrow> resultText st = ''-''
        \<and> resultText (rollTo 0 1000 st) = ''Result: 1 / d3''
        \<and> (case anim (rollTo 0 1000 st) of
              None \<Rightarrow> False
            | Some a \<Rightarrow> (1000 - startTime a) / dur a = 0))"
proof -
  have sd: "seedDirs (booted3 ''-'') = Some (fibonacciSeeds 3)" by (simp add: booted3_def)
  have l: "length (fibonacciSeeds 3) = 3" by (rule fibonacciSeeds_length)
  have ne: "fibonacciSeeds 3 \<noteq> []" using l by auto
  have w: "wrapIndex 0 3 = 0" by (simp add: wrapIndex_eq toInt32_def)
  have dg: "digits (Suc 0) = ''1''" "digits 3 = ''3''" by (simp_all add: digits.simps)
  have r0: "resultText (booted3 ''-'') = ''-''" by (simp add: booted3_def initState_def)
  show ?thesis
    by (simp add: boot_3 rollTo_some [OF sd ne] r0 l w resultString_def numberToString_def dg)
qed

section \<open>Interpolation keeps rotations\<close>

lemma qnormalize_unit: "unitQ (qnormalize p)"
proof (cases "qlength p = 0")
  case True
  then have "qnormalize p = Quaternion 0 0 0 1" by (simp add: qnormalize_def Let_def)
  then show ?thesis by (simp add: unitQ_def)
next
  case False
  define s where "s = qx p * qx p + qy p * qy p + qz p * qz p + qw p * qw p"
  have l: "qlength p = sqrt s" by (simp add: qlength_def s_def)
  have "0 \<le> s" unfolding s_def by (intro add_nonneg_nonneg) simp_all
  moreover have "s \<noteq> 0" using False l by auto
  ultimately have "0 < s" by simp
  then show ?thesis by (rule qnormalize_scaled(2)) (simp add: s_def)
qed

lemma atan2_cos_sin:
  assumes "0 \<le> c" and "0 < s" and "s * s + c * c = 1"
  shows "cos (atan2 s c) = c" and "sin (atan2 s c) = s"
proof -
  have "cos (atan2 s c) = c \<and> sin (atan2 s c) = s"
  proof (cases "c = 0")
    case True
    then have "s * s = 1" using assms(3) by simp
    then have "(s - 1) * (s + 1) = 0" by (simp add: algebra_simps)
    then have "s = 1 \<or> s = - 1" by auto
    then have "s = 1" using assms(2) by auto
    then show ?thesis using True assms(2) by (simp add: atan2_def)
  next
    case False
    then have c: "0 < c" using assms(1) by simp
    have a: "atan2 s c = arctan (s / c)" using c by (simp add: atan2_def)
    have "1 + (s / c)\<^sup>2 = 1 / (c * c)"
    proof -
      have "1 + (s / c)\<^sup>2 = (c * c + s * s) / (c * c)"
        using c by (simp add: power2_eq_square field_simps)
      then show ?thesis using assms(3) by (simp add: add.commute)
    qed
    then have "sqrt (1 + (s / c)\<^sup>2) = 1 / c"
      using c by (simp add: real_sqrt_divide real_sqrt_mult_self)
    then show ?thesis using c by (simp add: a cos_arctan sin_arctan)
  qed
  then show "cos (atan2 s c) = c" and "sin (atan2 s c) = s" by simp_all
qed

lemma slerp_weights:
  fixes al be :: real
  assumes "sin (al + be) = s" and "cos (al + be) = c" and "s \<noteq> 0"
  shows "(sin al / s) * (sin al / s) + (sin be / s) * (sin be / s)
         + 2 * (sin al / s) * (sin be / s) * c = 1"
proof -
  have sa: "sin al * sin al + cos al * cos al = 1"
    using sin_cos_squared_add [of al] by (simp add: power2_eq_square)
  have sb: "sin be * sin be + cos be * cos be = 1"
    using sin_cos_squared_add [of be] by (simp add: power2_eq_square)
  have s: "s = sin al * cos be + cos al * sin be" using assms(1) by (simp add: sin_add)
  have c: "c = cos al * cos be - sin al * sin be" using assms(2) by (simp add: cos_add)
  have "(sin al * cos be + cos al * sin be) * (sin al * cos be + cos al * sin be)
      = sin al * sin al * (cos be * cos be) + cos al * cos al * (sin be * sin be)
        + 2 * sin al * sin be * (cos al * cos be)"
    by (simp add: algebra_simps)
  also have "cos be * cos be = 1 - sin be * sin be" using sb by simp
  also have "cos al * cos al = 1 - sin al * sin al" using sa by simp
  finally have num: "sin al * sin al + sin be * sin be + 2 * sin al * sin be * c = s * s"
    unfolding s c by (simp add: algebra_simps)
  have "(sin al / s) * (sin al / s) + (sin be / s) * (sin be / s) + 2 * (sin al / s) * (sin be / s) * c
      = (sin al * sin al + sin be * sin be + 2 * sin al * sin be * c) / (s * s)"
    by (simp add: add_divide_distrib)
  also have "\<dots> = 1" using num assms(3) by simp
  finally show ?thesis .
qed

lemma combination_unit:
  assumes "unitQ a" and "unitQ b"
    and "u * u + v * v + 2 * u * v * (qw a * qw b + qx a * qx b + qy a * qy b + qz a * qz b) = 1"
  shows "unitQ (Quaternion (qx a * u + qx b * v) (qy a * u + qy b * v)
                           (qz a * u + qz b * v) (qw a * u + qw b * v))"
proof -
  obtain ax ay az aw where A: "a = Quaternion ax ay az aw" by (cases a)
  obtain bx "by" bz bw where B: "b = Quaternion bx by bz bw" by (cases b)
  have ua: "ax * ax + ay * ay + az * az + aw * aw = 1" using assms(1) by (simp add: unitQ_def A)
  have ub: "bx * bx + by * by + bz * bz + bw * bw = 1" using assms(2) by (simp add: unitQ_def B)
  have w: "u * u + v * v + 2 * u * v * (aw * bw + ax * bx + ay * by + az * bz) = 1"
    using assms(3) by (simp add: A B)
  have "(ax * u + bx * v) * (ax * u + bx * v) + (ay * u + by * v) * (ay * u + by * v)
      + (az * u + bz * v) * (az * u + bz * v) + (aw * u + bw * v) * (aw * u + bw * v)
      = u * u * (ax * ax + ay * ay + az * az + aw * aw)
      + v * v * (bx * bx + by * by + bz * bz + bw * bw)
      + 2 * u * v * (aw * bw + ax * bx + ay * by + az * bz)"
    by (simp add: algebra_simps)
  also have "\<dots> = 1" using ua ub w by simp
  finally show ?thesis by (simp add: A B unitQ_def)
qed

lemma slerp_unit:
  assumes a: "unitQ qa" and b: "unitQ qb"
  shows "unitQ (slerp qa qb t)"
proof -
  define c0 where "c0 = qw qa * qw qb + qx qa * qx qb + qy qa * qy qb + qz qa * qz qb"
  define qb' where "qb' = (if c0 < 0 then Quaternion (- qx qb) (- qy qb) (- qz qb) (- qw qb) else qb)"
  define c where "c = (if c0 < 0 then - c0 else c0)"
  have b': "unitQ qb'" using b by (simp add: qb'_def unitQ_def)
  have cdot: "c = qw qa * qw qb' + qx qa * qx qb' + qy qa * qy qb' + qz qa * qz qb'"
    by (simp add: c_def qb'_def c0_def)
  have c0: "0 \<le> c" by (simp add: c_def)
  consider "t = 0" | "t \<noteq> 0" "t = 1" | "t \<noteq> 0" "t \<noteq> 1" "1 \<le> c"
    | "t \<noteq> 0" "t \<noteq> 1" "c < 1" "1 - c * c \<le> EPSILON"
    | "t \<noteq> 0" "t \<noteq> 1" "c < 1" "EPSILON < 1 - c * c"
    by fastforce
  then show ?thesis
  proof cases
    case 1
    then show ?thesis using a by (simp add: slerp_def)
  next
    case 2
    then show ?thesis using b by (simp add: slerp_def)
  next
    case 3
    then show ?thesis using a
      by (simp add: slerp_def Let_def c0_def [symmetric] c_def [symmetric])
  next
    case 4
    then show ?thesis
      by (simp add: slerp_def Let_def c0_def [symmetric] c_def [symmetric] qnormalize_unit)
  next
    case 5
    define s where "s = sqrt (1 - c * c)"
    define th where "th = atan2 s c"
    have e: "0 < EPSILON" by (simp add: EPSILON_def)
    have pos: "0 < 1 - c * c" using 5(4) e by simp
    have s: "0 < s" using pos by (simp add: s_def)
    have ss: "s * s + c * c = 1" using pos by (simp add: s_def)
    have cs: "cos th = c" and sn: "sin th = s"
      unfolding th_def using atan2_cos_sin [OF c0 s ss] by simp_all
    have sum: "(1 - t) * th + t * th = th" by (simp add: algebra_simps)
    have w: "(sin ((1 - t) * th) / s) * (sin ((1 - t) * th) / s)
           + (sin (t * th) / s) * (sin (t * th) / s)
           + 2 * (sin ((1 - t) * th) / s) * (sin (t * th) / s) * c = 1"
      by (rule slerp_weights) (simp_all add: sum sn cs s less_imp_neq [OF s, symmetric])
    have r: "slerp qa qb t =
        Quaternion (qx qa * (sin ((1 - t) * th) / s) + qx qb' * (sin (t * th) / s))
                   (qy qa * (sin ((1 - t) * th) / s) + qy qb' * (sin (t * th) / s))
                   (qz qa * (sin ((1 - t) * th) / s) + qz qb' * (sin (t * th) / s))
                   (qw qa * (sin ((1 - t) * th) / s) + qw qb' * (sin (t * th) / s))"
      using 5 by (simp add: slerp_def Let_def c0_def [symmetric] c_def [symmetric]
          qb'_def [symmetric] s_def [symmetric] th_def [symmetric])
    show ?thesis
      unfolding r using a b' w [unfolded cdot] by (rule combination_unit)
  qed
qed

lemma render_unit:
  assumes "unitQ (rotQ st)" and "\<forall>a. anim st = Some a \<longrightarrow> unitQ (startQ a) \<and> unitQ (endQ a)"
  shows "unitQ (rotQ (render now st))"
    and "\<forall>a. anim (render now st) = Some a \<longrightarrow> unitQ (startQ a) \<and> unitQ (endQ a)"
proof -
  show "unitQ (rotQ (render now st))"
  proof (cases "anim st")
    case None
    then show ?thesis using assms(1) by (simp add: render_idle)
  next
    case (Some a)
    then show ?thesis using assms(2) by (simp add: render_some slerp_unit)
  qed
  show "\<forall>a. anim (render now st) = Some a \<longrightarrow> unitQ (startQ a) \<and> unitQ (endQ a)"
  proof (cases "anim st")
    case None
    then show ?thesis by (simp add: render_idle)
  next
    case (Some a)
    then show ?thesis using assms(2) by (simp add: render_some)
  qed
qed

lemma rollTo_unit:
  assumes "unitQ (rotQ st)" and "\<forall>a. anim st = Some a \<longrightarrow> unitQ (startQ a) \<and> unitQ (endQ a)"
    and "\<forall>dirs. seedDirs st = Some dirs \<longrightarrow> (\<forall>d \<in> set dirs. vlength d = 1)"
  shows "unitQ (rotQ (rollTo idx now st))"
    and "\<forall>a. anim (rollTo idx now st) = Some a \<longrightarrow> unitQ (startQ a) \<and> unitQ (endQ a)"
proof -
  have "unitQ (rotQ (rollTo idx now st))
      \<and> (\<forall>a. anim (rollTo idx now st) = Some a \<longrightarrow> unitQ (startQ a) \<and> unitQ (endQ a))"
  proof (cases "seedDirs st = None \<or> seedDirs st = Some []")
    case True
    then show ?thesis using assms(1,2) by (simp add: rollTo_none)
  next
    case False
    then obtain dirs where sd: "seedDirs st = Some dirs" and ne: "dirs \<noteq> []" by auto
    have len: "0 < int (length dirs)" using ne by simp
    have "nat (wrapIndex idx (int (length dirs))) < length dirs"
      using wrapIndex_bounds [OF len, of idx] by linarith
    then have "unitV (dirs ! nat (wrapIndex idx (int (length dirs))))"
      using assms(3) sd by (simp add: unitV_vlength)
    from endQ_faces_viewer(1) [OF assms(1) this] show ?thesis
      using assms(1) by (simp add: rollTo_some [OF sd ne])
  qed
  then show "unitQ (rotQ (rollTo idx now st))"
    and "\<forall>a. anim (rollTo idx now st) = Some a \<longrightarrow> unitQ (startQ a) \<and> unitQ (endQ a)"
    by simp_all
qed

section \<open>What holds in every reachable state\<close>

lemma setSeeds_invariant:
  assumes "length (seeds st) = MAX_SEEDS" and "setSeeds MAX_SEEDS n st = Inr st'"
  shows "length (seeds st') = MAX_SEEDS \<and> 3 \<le> count st' \<and> count st' \<le> int MAX_SEEDS
       \<and> seedDirs st' = Some (fibonacciSeeds (nat (count st')))
       \<and> take (nat (count st')) (seeds st') = fibonacciSeeds (nat (count st'))
       \<and> offset st' = offset st \<and> rotQ st' = rotQ st \<and> rot st' = rot st \<and> anim st' = anim st"
proof -
  have m: "3 \<le> MAX_SEEDS" by (simp add: MAX_SEEDS_def)
  define k where "k = max 3 (min (int MAX_SEEDS) (toInt32 n))"
  have k: "3 \<le> k" "k \<le> int MAX_SEEDS" using m by (simp_all add: k_def)
  have st': "st' = st\<lparr>seeds := fibonacciSeeds (nat k) @ replicate (MAX_SEEDS - nat k) (Vector3 1 0 0),
                        count := k, seedDirs := Some (fibonacciSeeds (nat k))\<rparr>"
    using assms(2) unfolding setSeeds_eq [OF assms(1) m] k_def by simp
  show ?thesis
    using k by (simp add: st' fibonacciSeeds_length)
qed

lemma reachable_invariant: "reachable st \<Longrightarrow> invariant st"
proof (induction rule: reachable.induct)
  case (booted n t0 st)
  have l: "length (seeds (initState MAX_SEEDS t0)) = MAX_SEEDS" by (simp add: initState_def)
  from booted obtain s where s: "setSeeds MAX_SEEDS n (initState MAX_SEEDS t0) = Inr s"
    and st: "st = s\<lparr>rot := rotationMatrix (rotQ s)\<rparr>"
    by (auto simp: boot_def split: sum.splits)
  from setSeeds_invariant [OF l s] show ?case
    by (simp add: invariant_def st initState_def unitQ_def)
next
  case (reseeded st n st')
  then have l: "length (seeds st) = MAX_SEEDS" by (simp add: invariant_def)
  from reseeded(2) obtain s where s: "setSeeds MAX_SEEDS n st = Inr s"
    and st': "st' = s\<lparr>resultText := [CHR 0xE2, CHR 0x80, CHR 0x93]\<rparr>"
    by (auto simp: reseedClick_def split: sum.splits)
  from setSeeds_invariant [OF l s] reseeded.IH show ?case
    by (simp add: invariant_def st')
next
  case (rolled st idx now)
  then have i: "invariant st" by simp
  have f: "rollTo idx now st = st\<lparr>anim := anim (rollTo idx now st), resultText := resultText (rollTo idx now st)\<rparr>"
  proof (cases "seedDirs st = None \<or> seedDirs st = Some []")
    case True
    then show ?thesis by (simp add: rollTo_none)
  next
    case False
    then obtain dirs where "seedDirs st = Some dirs" "dirs \<noteq> []" by auto
    then show ?thesis by (simp add: rollTo_some)
  qed
  have uq: "unitQ (rotQ st)" using i by (simp add: invariant_def)
  have ua: "\<forall>a. anim st = Some a \<longrightarrow> unitQ (startQ a) \<and> unitQ (endQ a)"
    using i by (auto simp: invariant_def)
  have ud: "\<forall>dirs. seedDirs st = Some dirs \<longrightarrow> (\<forall>d \<in> set dirs. vlength d = 1)"
    using i by (auto simp: invariant_def fibonacciSeeds_unit)
  have a: "case anim (rollTo idx now st) of None \<Rightarrow> True | Some a \<Rightarrow> unitQ (startQ a) \<and> unitQ (endQ a)"
    using rollTo_unit(2) [OF uq ua ud] by (auto split: option.splits)
  show ?case
    using i a by (subst f) (simp add: invariant_def)
next
  case (drawn st now)
  then have i: "invariant st" by simp
  have uq: "unitQ (rotQ st)" using i by (simp add: invariant_def)
  have ua: "\<forall>a. anim st = Some a \<longrightarrow> unitQ (startQ a) \<and> unitQ (endQ a)"
    using i by (auto simp: invariant_def)
  show ?case
  proof (cases "anim st")
    case None
    then show ?thesis using i by (simp add: render_idle)
  next
    case (Some a)
    have u: "unitQ (slerp (startQ a) (endQ a) (1 - (1 - min 1 ((now - startTime a) / dur a)) ^ 3))"
      using ua Some by (simp add: slerp_unit)
    show ?thesis
      using i u ua Some by (simp add: render_some [OF Some] invariant_def)
  qed
qed

text \<open>
  C2. In every reachable state, let a roll be started by \<open>rollTo(idx)\<close>, let any frames be drawn
  before the duration has elapsed, and let a frame be drawn once it has (the elapsed fraction
  is clamped to 1). Then the animation state is cleared, the orientation is exactly the end
  orientation computed by \<open>rollTo\<close>, later frames leave the state as it is, and the held
  orientation applied to the target face's seed direction is the toward-viewer axis
  \<open>(0,0,1)\<close>: exactly so unless the face starts out pointing (within \<open>Number.EPSILON\<close>) straight
  away from the viewer, and in every case within a squared distance of \<open>2 * Number.EPSILON\<close>.
  Arithmetic is over the reals.
\<close>

theorem roll_completes_facing_viewer:
  assumes "reachable st" and "seedDirs st = Some dirs"
    and "\<forall>t \<in> set ts. t < tRoll + DURATION_MS"
    and "tRoll + DURATION_MS \<le> tEnd"
  shows "let k = nat (wrapIndex idx (int (length dirs)));
             nWorld = normalizeV (applyQuaternion (dirs ! k) (rotQ st));
             e = multiply (setFromUnitVectors nWorld zWorld) (rotQ st);
             st' = render tEnd (frames ts (rollTo idx tRoll st))
         in anim st' = None \<and> rotQ st' = e \<and> rot st' = rotationMatrix e \<and> unitQ e
            \<and> sqDist (applyQuaternion (dirs ! k) (rotQ st')) zWorld < 2 * EPSILON
            \<and> sqDist (mulMV (rot st') (dirs ! k)) zWorld < 2 * EPSILON
            \<and> (EPSILON \<le> dot nWorld zWorld + 1 \<longrightarrow> applyQuaternion (dirs ! k) (rotQ st') = zWorld)
            \<and> render tLater st' = st'"
proof -
  have i: "invariant st" using assms(1) by (rule reachable_invariant)
  have d: "dirs = fibonacciSeeds (nat (count st))" using i assms(2) by (simp add: invariant_def)
  have "3 \<le> count st" using i by (simp add: invariant_def)
  then have ne: "dirs \<noteq> []" using fibonacciSeeds_length [of "nat (count st)"] d by auto
  have uq: "unitQ (rotQ st)" using i by (simp add: invariant_def)
  have ud: "\<forall>v \<in> set dirs. vlength v = 1" by (simp add: d fibonacciSeeds_unit)
  show ?thesis
    using assms(2) ne uq ud assms(3,4) by (rule roll_completes_general)
qed

theorem roll_completes_facing_viewer_witness:
  "(case boot 3 [] of
      Inl e \<Rightarrow> False
    | Inr st \<Rightarrow>
        anim (render 900 (frames [100, 500] (rollTo 0 0 st))) = None
      \<and> sqDist (applyQuaternion (fibonacciSeeds 3 ! 0) (rotQ (render 900 (frames [100, 500] (rollTo 0 0 st)))))
           zWorld < 2 * EPSILON)"
proof -
  let ?st = "booted3 []"
  have r: "reachable ?st" by (rule reachable.booted [OF boot_3])
  have sd: "seedDirs ?st = Some (fibonacciSeeds 3)" by (simp add: booted3_def)
  have l: "length (fibonacciSeeds 3) = 3" by (rule fibonacciSeeds_length)
  have during: "\<forall>t \<in> set [100, 500 :: real]. t < 0 + DURATION_MS" by (simp add: DURATION_MS_def)
  have finished: "0 + DURATION_MS \<le> 900" by (simp add: DURATION_MS_def)
  have w: "nat (wrapIndex 0 (int (length (fibonacciSeeds 3)))) = 0"
    by (simp add: l wrapIndex_eq toInt32_def)
  from roll_completes_facing_viewer [OF r sd during finished, where idx = 0]
  have "anim (render 900 (frames [100, 500] (rollTo 0 0 ?st))) = None
      \<and> sqDist (applyQuaternion (fibonacciSeeds 3 ! 0) (rotQ (render 900 (frames [100, 500] (rollTo 0 0 ?st)))))
           zWorld < 2 * EPSILON"
    unfolding Let_def w by blast
  then show ?thesis by (simp add: boot_3)
qed

lemma reachable_normals:
  assumes "reachable u" and "i < nat (count u)"
  shows "vlength (mulMV (rot u) (seeds u ! i)) = 1"
proof -
  have inv: "invariant u" using assms(1) by (rule reachable_invariant)
  let ?k = "nat (count u)"
  have tk: "take ?k (seeds u) = fibonacciSeeds ?k" using inv by (simp add: invariant_def)
  have "seeds u ! i = take ?k (seeds u) ! i" using assms(2) by simp
  then have s: "seeds u ! i = seedAt ?k i" using assms(2) by (simp add: tk fibonacciSeeds_nth)
  have us: "unitV (seeds u ! i)" using assms(2) by (simp add: s unitV_vlength seedAt_raw(2))
  have uq: "unitQ (rotQ u)" using inv by (simp add: invariant_def)
  have "mulMV (rot u) (seeds u ! i) = applyQuaternion (seeds u ! i) (rotQ u)"
    using inv by (simp add: invariant_def mulMV_rotationMatrix)
  then show ?thesis using applyQuaternion_unit [OF uq us] by (simp add: unitV_vlength)
qed

text \<open>
  C4 (as amended). In every reachable state, that is for every polyhedron state the seed
  generator produces (at least 3 active faces, shared offset 0.9, any orientation reached by
  rolling), a ray cast from the origin in the direction of an active seed's normal crosses
  that seed's own plane at distance exactly \<open>offset\<close>, and the clipping interval of the
  intersector ends there (\<open>tNear = 0\<close>, \<open>tFar = offset\<close>); but it crosses that plane leaving the
  solid, no face is an entering face, and the intersector reports no hit.
\<close>

theorem origin_ray_along_seed:
  assumes "reachable u" and "k < nat (count u)"
  shows "3 \<le> count u \<and> offset u = 9 / 10
       \<and> dot (mulMV (rot u) (seeds u ! k)) (mulMV (rot u) (seeds u ! k)) = 1
       \<and> (offset u - dot (mulMV (rot u) (seeds u ! k)) (Vector3 0 0 0))
           / dot (mulMV (rot u) (seeds u ! k)) (mulMV (rot u) (seeds u ! k)) = offset u
       \<and> polyLoop MAX_SEEDS u (Vector3 0 0 0) (mulMV (rot u) (seeds u ! k)) 0 0 1000000000 (- 1)
           = Inr (0, offset u, - 1)
       \<and> intersectPoly MAX_SEEDS u (Vector3 0 0 0) (mulMV (rot u) (seeds u ! k)) = noHit"
proof -
  have inv: "invariant u" using assms(1) by (rule reachable_invariant)
  have a: "length (seeds u) = MAX_SEEDS" and b: "count u \<le> int MAX_SEEDS" and c: "3 \<le> count u"
    and o: "offset u = 9 / 10"
    using inv by (simp_all add: invariant_def POLY_OFFSET_def)
  have un: "\<forall>i < nat (count u). vlength (mulMV (rot u) (seeds u ! i)) = 1"
    using reachable_normals [OF assms(1)] by simp
  have d: "0 < offset u" "offset u \<le> 1000000000" by (simp_all add: o)
  from origin_ray_general [OF a b assms(2) un d] c o show ?thesis by blast
qed

theorem origin_ray_along_seed_witness:
  "(case boot 3 [] of
      Inl e \<Rightarrow> False
    | Inr u \<Rightarrow> polyLoop MAX_SEEDS u (Vector3 0 0 0) (mulMV (rot u) (seeds u ! 2)) 0 0 1000000000 (- 1)
               = Inr (0, 9 / 10, - 1)
             \<and> intersectPoly MAX_SEEDS u (Vector3 0 0 0) (mulMV (rot u) (seeds u ! 2)) = noHit)"
proof -
  let ?u = "booted3 []"
  have r: "reachable ?u" by (rule reachable.booted [OF boot_3])
  have k: "2 < nat (count ?u)" by (simp add: booted3_fields)
  from origin_ray_along_seed [OF r k] show ?thesis
    by (simp add: boot_3)
qed

text \<open>
  The claim as stated fails on the state the seed generator produces for three faces: the ray
  from the origin along seed 0 is not reported as a hit.
\<close>

theorem origin_ray_reports_no_hit_counterexample:
  "(case boot 3 [] of
      Inl e \<Rightarrow> False
    | Inr u \<Rightarrow> count u = 3 \<and> offset u = 9 / 10
             \<and> \<not> ok (intersectPoly MAX_SEEDS u (Vector3 0 0 0) (mulMV (rot u) (seeds u ! 0))))"
proof -
  let ?u = "booted3 []"
  have c: "nat (count ?u) \<le> MAX_SEEDS" by (simp add: booted3_fields MAX_SEEDS_def)
  have k: "0 < nat (count ?u)" by (simp add: booted3_fields)
  have un: "\<forall>i < nat (count ?u). vlength (mulMV (rot ?u) (seeds ?u ! i)) = 1"
    by (simp add: booted3_fields booted3_normal seedAt_raw(2))
  have d: "0 < offset ?u" "offset ?u \<le> 1000000000" by (simp_all add: booted3_fields)
  have "polyLoop MAX_SEEDS ?u (Vector3 0 0 0) (mulMV (rot ?u) (seeds ?u ! 0)) 0 0 1000000000 (- 1)
        = Inr (0, offset ?u, - 1)"
    using c k un d(1) _ d(2) by (rule polyLoop_from_origin) simp_all
  then have "intersectPoly MAX_SEEDS ?u (Vector3 0 0 0) (mulMV (rot ?u) (seeds ?u ! 0)) = noHit"
    by (simp add: intersectPoly_def)
  then show ?thesis
    by (simp add: boot_3 booted3_fields noHit_def)
qed

end
